theory Spec2Isabelle
  imports Complex_Main "HOL-Library.Sublist"
begin

section \<open>Values of the remote API\<close>

text \<open>
  The workshop board (\<^verbatim>\<open>workshop.py\<close>) reads and writes JSON documents of the Cin7
  API. A decoded document is a Python value: \<^verbatim>\<open>None\<close>, a bool, an int, a float, a
  string, a list or a dict. Python's \<^verbatim>\<open>None\<close> is \<open>JNull\<close> throughout, so a
  function that returns \<^verbatim>\<open>None\<close> returns \<open>JNull\<close>.

  A float is an exact rational or one of the three non-finite values
  (\<^verbatim>\<open>json.loads\<close> accepts \<^verbatim>\<open>Infinity\<close>, \<^verbatim>\<open>-Infinity\<close> and \<^verbatim>\<open>NaN\<close>). The rounding of
  IEEE doubles is not part of this model: sums are exact.

  A dict is the list of its items in insertion order; its keys are distinct, and
  \<open>map_of\<close> is the lookup.
\<close>

datatype pyfloat = Finite rat | PosInf | NegInf | NaN

datatype json =
    JNull
  | JBool bool
  | JInt int
  | JFloat pyfloat
  | JStr string
  | JList "json list"
  | JObj "(string \<times> json) list"

datatype py_error = AttributeError | IndexError | TypeError | ValueError | OverflowError

text \<open>Truth value testing, as \<^verbatim>\<open>if x\<close>, \<^verbatim>\<open>x or y\<close> and \<^verbatim>\<open>not x\<close> use it.\<close>

fun truthy :: "json \<Rightarrow> bool" where
  "truthy JNull = False"
| "truthy (JBool b) = b"
| "truthy (JInt n) = (n \<noteq> 0)"
| "truthy (JFloat f) = (f \<noteq> Finite 0)"
| "truthy (JStr s) = (s \<noteq> [])"
| "truthy (JList xs) = (xs \<noteq> [])"
| "truthy (JObj kvs) = (kvs \<noteq> [])"

text \<open>\<^verbatim>\<open>x or y\<close>: the first operand when it is true, the second otherwise.\<close>

definition py_or :: "json \<Rightarrow> json \<Rightarrow> json" where
  "py_or x y = (if truthy x then x else y)"

text \<open>\<^verbatim>\<open>d.get(k)\<close> and \<^verbatim>\<open>d.get(k, default)\<close> on a dict.\<close>

definition dict_get_default :: "(string \<times> json) list \<Rightarrow> string \<Rightarrow> json \<Rightarrow> json" where
  "dict_get_default d k dflt = (case map_of d k of None \<Rightarrow> dflt | Some v \<Rightarrow> v)"

definition dict_get :: "(string \<times> json) list \<Rightarrow> string \<Rightarrow> json" where
  "dict_get d k = dict_get_default d k JNull"

text \<open>
  \<^verbatim>\<open>x.get(k)\<close> on any value: only a dict has the method, every other value raises
  \<^verbatim>\<open>AttributeError\<close>.
\<close>

fun obj_get :: "json \<Rightarrow> string \<Rightarrow> py_error + json" where
  "obj_get (JObj d) k = Inr (dict_get d k)"
| "obj_get _ k = Inl AttributeError"

section \<open>Strings\<close>

text \<open>
  \<^verbatim>\<open>c.lower()\<close> on one character. The field names of the program are ASCII; a byte
  outside \<^verbatim>\<open>A-Z\<close> is left as it is.
\<close>

definition lower_char :: "char \<Rightarrow> char" where
  "lower_char c =
     (if (65::nat) \<le> of_char c \<and> of_char c \<le> (90::nat) then
        (case map_of (zip ''ABCDEFGHIJKLMNOPQRSTUVWXYZ'' ''abcdefghijklmnopqrstuvwxyz'') c of
           None \<Rightarrow> c
         | Some l \<Rightarrow> l)
      else c)"

text \<open>\<^verbatim>\<open>name[0].lower() + name[1:]\<close>; \<^verbatim>\<open>name[0]\<close> raises on the empty string.\<close>

definition lower_first :: "string \<Rightarrow> py_error + string" where
  "lower_first name =
     (case name of [] \<Rightarrow> Inl IndexError | c # cs \<Rightarrow> Inr (lower_char c # cs))"

text \<open>\<^verbatim>\<open>sep.join(xs)\<close> on a list of strings.\<close>

fun py_join :: "string \<Rightarrow> string list \<Rightarrow> string" where
  "py_join sep [] = []"
| "py_join sep [x] = x"
| "py_join sep (x # y # ys) = x @ sep @ py_join sep (y # ys)"

text \<open>Decimal digits, and \<^verbatim>\<open>str(n)\<close> of an int.\<close>

definition digit_char :: "nat \<Rightarrow> char" where
  "digit_char n = ''0123456789'' ! (n mod 10)"

function str_nat :: "nat \<Rightarrow> string" where
  "str_nat n = (if n < 10 then [digit_char n] else str_nat (n div 10) @ [digit_char (n mod 10)])"
  by pat_completeness auto
termination
  by (relation "measure id") auto

declare str_nat.simps [simp del]

definition str_int :: "int \<Rightarrow> string" where
  "str_int i = (if i < 0 then CHR ''-'' # str_nat (nat (- i)) else str_nat (nat i))"

section \<open>Field Normalizer: the \<^verbatim>\<open>gf\<close> helper\<close>

text \<open>
  \<^verbatim>\<open>
  def gf(name):
      return order.get(name) or order.get(name[0].lower() + name[1:])
  \<close>
  \<^verbatim>\<open>order\<close> is a dict where \<^verbatim>\<open>gf\<close> is defined (\<^verbatim>\<open>order.get("IsVoid")\<close> has been
  evaluated before). The second operand of \<^verbatim>\<open>or\<close> is evaluated only when the first is
  not true.
\<close>

definition gf :: "(string \<times> json) list \<Rightarrow> string \<Rightarrow> py_error + json" where
  "gf order name =
     (let v = dict_get order name in
      if truthy v then Inr v
      else (case lower_first name of
              Inl e \<Rightarrow> Inl e
            | Inr name' \<Rightarrow> Inr (dict_get order name')))"

text \<open>
  The resolution as the specification words it: the exact name first, then the name
  with its first character lower-cased, the value of whichever key is present.
\<close>

definition resolve_spec :: "(string \<times> json) list \<Rightarrow> string \<Rightarrow> py_error + json" where
  "resolve_spec order name =
     (case map_of order name of
        Some v \<Rightarrow> Inr v
      | None \<Rightarrow> (case lower_first name of
                   Inl e \<Rightarrow> Inl e
                 | Inr name' \<Rightarrow> Inr (dict_get order name')))"

section \<open>Configuration\<close>

definition KICKPLATE_STAGES :: "string list" where
  "KICKPLATE_STAGES =
     [''Kickplate - New'', ''Kickplate - Processing'',
      ''Kickplate - Job Complete'', ''Kickplate - To Collect'']"

definition KICKPLATE_STAGE_PREFIX :: string where
  "KICKPLATE_STAGE_PREFIX = ''Kickplate - ''"

definition DUE_SOON_DAYS :: int where
  "DUE_SOON_DAYS = 7"

definition API_MAX_RETRIES :: nat where
  "API_MAX_RETRIES = 3"

definition API_RETRY_DELAY :: rat where
  "API_RETRY_DELAY = 1"

definition SALES_ORDER_FIELDS :: "string list" where
  "SALES_ORDER_FIELDS =
     [''Id'', ''Reference'', ''ProjectName'', ''Company'', ''FirstName'',
      ''CreatedDate'', ''EstimatedDeliveryDate'', ''Stage'', ''IsVoid'', ''LineItems'']"

definition EXCLUDED_STAGES :: "string list" where
  "EXCLUDED_STAGES =
     [''Fully Dispatched'', ''Dispatched'', ''Cancelled'', ''Declined'',
      ''To Call'', ''Awaiting PO'', ''Awaiting Payment'',
      ''Release To Pick'', ''Partially Picked'', ''Fully Picked'',
      ''Fully Picked - Hold'', ''On Hold'', ''Ready to Invoice'',
      ''Release To Pick - WMS'', ''Ready To Pack - WMS'']"

section \<open>Resilient Fetcher\<close>

text \<open>
  The remote side of one call of \<^verbatim>\<open>cin7_get\<close> or \<^verbatim>\<open>cin7_put\<close> is a function from
  the attempt number (from 0) to what \<^verbatim>\<open>requests.get\<close> or \<^verbatim>\<open>requests.put\<close> does at
  that attempt: it raises one of the exceptions of \<^verbatim>\<open>requests\<close> (each with its message
  \<^verbatim>\<open>str(e)\<close>), or it returns a response. \<open>json_body\<close> is \<^verbatim>\<open>resp.json()\<close>: \<open>Inr\<close> the
  decoded document, \<open>Inl\<close> the message of the decoding error when the body is absent
  or is not JSON. That error is a \<^verbatim>\<open>ValueError\<close> and, in \<^verbatim>\<open>requests\<close> from 2.27 on,
  also a \<^verbatim>\<open>RequestException\<close>, which is how \<^verbatim>\<open>cin7_get\<close> meets it.

  What a call does besides returning is the list of its events, in order: the requests
  it sends (with the query parameters or the JSON payload), the sleeps and the log
  lines. The URL prefix and the credentials are the same in every request and are
  left out.
\<close>

datatype http_failure = Timeout string | ConnectionError string | RequestException string

datatype response = Response (status_code: int) (body_text: string) (json_body: "string + json")

type_synonym server = "nat \<Rightarrow> http_failure + response"

datatype event =
    HttpGet string json
  | HttpPut string json
  | Sleep rat
  | LogInfo string
  | LogError string

text \<open>
  One turn of the \<^verbatim>\<open>for attempt in range(API_MAX_RETRIES)\<close> loop ends in one of three
  ways: the function returns; the rate-limit branch sleeps and takes \<^verbatim>\<open>continue\<close>; or
  \<^verbatim>\<open>last_error\<close> is set and control falls through to the backoff after the
  \<^verbatim>\<open>try\<close> statement.
\<close>

datatype 'a attempt = Return 'a | RateLimited | Failed string

text \<open>\<^verbatim>\<open>f"HTTP {resp.status_code}: {resp.text[:300]}"\<close>\<close>

definition http_error_text :: "response \<Rightarrow> string" where
  "http_error_text resp = ''HTTP '' @ str_int (status_code resp) @ '': '' @ take 300 (body_text resp)"

text \<open>\<^verbatim>\<open>str(last_error)\<close> inside an f-string; \<^verbatim>\<open>last_error\<close> starts as \<^verbatim>\<open>None\<close>.\<close>

definition str_opt :: "string option \<Rightarrow> string" where
  "str_opt e = (case e of None \<Rightarrow> ''None'' | Some s \<Rightarrow> s)"

text \<open>
  The sleep after a failed attempt:
  \<^verbatim>\<open>
  if attempt < API_MAX_RETRIES - 1:
      time.sleep(API_RETRY_DELAY * (attempt + 1))
  \<close>
\<close>

definition backoff :: "nat \<Rightarrow> event list" where
  "backoff attempt =
     (if attempt < API_MAX_RETRIES - 1 then [Sleep (API_RETRY_DELAY * (of_nat attempt + 1))]
      else [])"

text \<open>\<^verbatim>\<open>time.sleep(API_RETRY_DELAY * (attempt + 1) * 2)\<close> on HTTP 429.\<close>

definition rate_limit_sleep :: "nat \<Rightarrow> event" where
  "rate_limit_sleep attempt = Sleep (API_RETRY_DELAY * (of_nat attempt + 1) * 2)"

subsection \<open>\<^verbatim>\<open>cin7_get\<close>\<close>

fun get_attempt :: "http_failure + response \<Rightarrow> json attempt" where
  "get_attempt (Inr resp) =
     (if status_code resp = 200 then
        (case json_body resp of Inr j \<Rightarrow> Return j | Inl msg \<Rightarrow> Failed msg)
      else if status_code resp = 429 then RateLimited
      else Failed (http_error_text resp))"
| "get_attempt (Inl (Timeout msg)) = Failed ''Request timed out''"
| "get_attempt (Inl (ConnectionError msg)) = Failed ''Connection error''"
| "get_attempt (Inl (RequestException msg)) = Failed msg"

function cin7_get_loop ::
  "server \<Rightarrow> string \<Rightarrow> json \<Rightarrow> nat \<Rightarrow> string option \<Rightarrow> event list \<Rightarrow> json \<times> event list"
where
  "cin7_get_loop srv path params attempt last_error tr =
     (if attempt < API_MAX_RETRIES then
        (case get_attempt (srv attempt) of
           Return j \<Rightarrow> (j, tr @ [HttpGet path params])
         | RateLimited \<Rightarrow>
             cin7_get_loop srv path params (Suc attempt) last_error
               (tr @ [HttpGet path params, rate_limit_sleep attempt])
         | Failed e \<Rightarrow>
             cin7_get_loop srv path params (Suc attempt) (Some e)
               (tr @ HttpGet path params # backoff attempt))
      else
        (JNull,
         tr @ [LogError (''Cin7 GET '' @ path @ '' failed after '' @ str_int (int API_MAX_RETRIES)
                           @ '' attempts: '' @ str_opt last_error)]))"
  by pat_completeness auto
termination
  by (relation "measure (\<lambda>(srv, path, params, attempt, last_error, tr). API_MAX_RETRIES - attempt)")
     auto

declare cin7_get_loop.simps [simp del]

definition cin7_get :: "server \<Rightarrow> string \<Rightarrow> json \<Rightarrow> json \<times> event list" where
  "cin7_get srv path params = cin7_get_loop srv path params 0 None []"

subsection \<open>\<^verbatim>\<open>cin7_put\<close>\<close>

text \<open>
  The result dict of \<^verbatim>\<open>cin7_put\<close>: \<^verbatim>\<open>{"success": True}\<close>, or
  \<^verbatim>\<open>{"success": False, "error": last_error}\<close> where \<^verbatim>\<open>last_error\<close> may still be
  \<^verbatim>\<open>None\<close>.
\<close>

datatype put_result = Success | Failure "string option"

text \<open>\<^verbatim>\<open>payload = [data] if isinstance(data, dict) else data\<close>\<close>

fun wrap_payload :: "json \<Rightarrow> json" where
  "wrap_payload (JObj d) = JList [JObj d]"
| "wrap_payload data = data"

text \<open>
  \<^verbatim>\<open>"; ".join(errors)\<close> for a true \<^verbatim>\<open>errors\<close>: a list of strings is joined; a string
  is iterated character by character and a dict by its keys; a list with an element
  that is not a string, and a value that is not iterable, raise \<^verbatim>\<open>TypeError\<close>.
\<close>

fun the_strings :: "json list \<Rightarrow> string list option" where
  "the_strings [] = Some []"
| "the_strings (JStr s # xs) = map_option ((#) s) (the_strings xs)"
| "the_strings (_ # xs) = None"

fun join_errors :: "json \<Rightarrow> py_error + string" where
  "join_errors (JList xs) =
     (case the_strings xs of None \<Rightarrow> Inl TypeError | Some ss \<Rightarrow> Inr (py_join ''; '' ss))"
| "join_errors (JStr s) = Inr (py_join ''; '' (map (\<lambda>c. [c]) s))"
| "join_errors (JObj d) = Inr (py_join ''; '' (map fst d))"
| "join_errors _ = Inl TypeError"

text \<open>
  The inspection of a response with status 200, 201 or 204:
  \<^verbatim>\<open>
  try:
      result = resp.json()
      if isinstance(result, list) and result:
          item = result[0]
          if item.get("success") is False:
              errors = item.get("errors", [])
              last_error = "; ".join(errors) if errors else "Cin7 reported failure"
              return {"success": False, "error": last_error}
  except (ValueError, KeyError):
      pass
  return {"success": True}
  \<close>
  The decoding error is a \<^verbatim>\<open>ValueError\<close> and is swallowed. An \<^verbatim>\<open>AttributeError\<close>
  (\<^verbatim>\<open>item\<close> is not a dict) and a \<^verbatim>\<open>TypeError\<close> (from \<^verbatim>\<open>join\<close>) are caught neither here
  nor by the \<^verbatim>\<open>except requests.exceptions.RequestException\<close> around it, and leave
  \<^verbatim>\<open>cin7_put\<close>.
\<close>

fun check_put_body :: "string + json \<Rightarrow> py_error + put_result" where
  "check_put_body (Inl msg) = Inr Success"
| "check_put_body (Inr (JList (item # rest))) =
     (case obj_get item ''success'' of
        Inl e \<Rightarrow> Inl e
      | Inr s \<Rightarrow>
          if s = JBool False then
            (case item of
               JObj d \<Rightarrow>
                 (let errors = dict_get_default d ''errors'' (JList []) in
                  if truthy errors then
                    (case join_errors errors of
                       Inl e \<Rightarrow> Inl e
                     | Inr msg \<Rightarrow> Inr (Failure (Some msg)))
                  else Inr (Failure (Some ''Cin7 reported failure'')))
             | _ \<Rightarrow> Inl AttributeError)
          else Inr Success)"
| "check_put_body (Inr _) = Inr Success"

fun put_attempt :: "http_failure + response \<Rightarrow> (py_error + put_result) attempt" where
  "put_attempt (Inr resp) =
     (if status_code resp \<in> {200, 201, 204} then Return (check_put_body (json_body resp))
      else if status_code resp = 429 then RateLimited
      else Failed (http_error_text resp))"
| "put_attempt (Inl (Timeout msg)) = Failed msg"
| "put_attempt (Inl (ConnectionError msg)) = Failed msg"
| "put_attempt (Inl (RequestException msg)) = Failed msg"

function cin7_put_loop ::
  "server \<Rightarrow> string \<Rightarrow> json \<Rightarrow> nat \<Rightarrow> string option \<Rightarrow> event list
     \<Rightarrow> (py_error + put_result) \<times> event list"
where
  "cin7_put_loop srv path payload attempt last_error tr =
     (if attempt < API_MAX_RETRIES then
        (case put_attempt (srv attempt) of
           Return r \<Rightarrow> (r, tr @ [HttpPut path payload])
         | RateLimited \<Rightarrow>
             cin7_put_loop srv path payload (Suc attempt) last_error
               (tr @ [HttpPut path payload, rate_limit_sleep attempt])
         | Failed e \<Rightarrow>
             cin7_put_loop srv path payload (Suc attempt) (Some e)
               (tr @ HttpPut path payload # backoff attempt))
      else
        (Inr (Failure last_error),
         tr @ [LogError (''Cin7 PUT '' @ path @ '' failed: '' @ str_opt last_error)]))"
  by pat_completeness auto
termination
  by (relation "measure (\<lambda>(srv, path, payload, attempt, last_error, tr). API_MAX_RETRIES - attempt)")
     auto

declare cin7_put_loop.simps [simp del]

definition cin7_put :: "server \<Rightarrow> string \<Rightarrow> json \<Rightarrow> (py_error + put_result) \<times> event list" where
  "cin7_put srv path data = cin7_put_loop srv path (wrap_payload data) 0 None []"

subsection \<open>Stage Transition Coordinator: \<^verbatim>\<open>update_order_stage\<close>\<close>

text \<open>
  The target stage is a string here, as in the contract
  \<^verbatim>\<open>transition(orderId, targetStage)\<close>; the order id is the int of the route
  \<^verbatim>\<open>/api/jobs/<int:order_id>/stage\<close>.
\<close>

definition update_order_stage ::
  "server \<Rightarrow> int \<Rightarrow> string \<Rightarrow> (py_error + put_result) \<times> event list"
where
  "update_order_stage srv order_id new_stage =
     (if new_stage \<notin> set KICKPLATE_STAGES then
        (Inr (Failure (Some (''Invalid stage: '' @ new_stage))), [])
      else
        (case cin7_put srv ''/SalesOrders''
                (JObj [(''id'', JInt order_id), (''stage'', JStr new_stage)]) of
           (Inl e, tr) \<Rightarrow> (Inl e, tr)
         | (Inr Success, tr) \<Rightarrow>
             (Inr Success,
              tr @ [LogInfo (''Stage updated: Order '' @ str_int order_id @ '' -> '' @ new_stage)])
         | (Inr (Failure err), tr) \<Rightarrow>
             (Inr (Failure err),
              tr @ [LogError (''Stage update failed: Order '' @ str_int order_id @ '' -> ''
                                @ new_stage @ '': '' @ str_opt err)])))"

section \<open>Date parsing\<close>

text \<open>
  A \<^verbatim>\<open>datetime\<close> without time zone, and a \<^verbatim>\<open>date\<close>. The difference of two dates in
  days is the difference of their proleptic Gregorian ordinals (\<^verbatim>\<open>date.toordinal\<close>).
\<close>

record datetime =
  year :: nat
  month :: nat
  day :: nat
  hour :: nat
  minute :: nat
  second :: nat
  microsecond :: nat

record date =
  d_year :: nat
  d_month :: nat
  d_day :: nat

definition date_of :: "datetime \<Rightarrow> date" where
  "date_of dt = \<lparr>d_year = year dt, d_month = month dt, d_day = day dt\<rparr>"

definition is_leap :: "nat \<Rightarrow> bool" where
  "is_leap y = (y mod 4 = 0 \<and> (y mod 100 \<noteq> 0 \<or> y mod 400 = 0))"

definition days_in_month :: "nat \<Rightarrow> nat \<Rightarrow> nat" where
  "days_in_month y m =
     (if m = 2 then (if is_leap y then 29 else 28)
      else if m \<in> {4, 6, 9, 11} then 30 else 31)"

definition days_before_year :: "nat \<Rightarrow> int" where
  "days_before_year y =
     (let y1 = int y - 1 in y1 * 365 + y1 div 4 - y1 div 100 + y1 div 400)"

definition days_before_month :: "nat \<Rightarrow> nat \<Rightarrow> int" where
  "days_before_month y m = int (sum_list (map (days_in_month y) [1..<m]))"

definition toordinal :: "date \<Rightarrow> int" where
  "toordinal d = days_before_year (d_year d) + days_before_month (d_year d) (d_month d) + int (d_day d)"

text \<open>The constructor of \<^verbatim>\<open>datetime\<close> raises \<^verbatim>\<open>ValueError\<close> outside these ranges.\<close>

definition valid_datetime :: "datetime \<Rightarrow> bool" where
  "valid_datetime dt =
     (1 \<le> year dt \<and> year dt \<le> 9999 \<and> 1 \<le> month dt \<and> month dt \<le> 12 \<and>
      1 \<le> day dt \<and> day dt \<le> days_in_month (year dt) (month dt) \<and>
      hour dt \<le> 23 \<and> minute dt \<le> 59 \<and> second dt \<le> 59 \<and> microsecond dt \<le> 999999)"

subsection \<open>\<^verbatim>\<open>datetime.strptime\<close>\<close>

text \<open>
  \<^verbatim>\<open>strptime\<close> turns the format into a regular expression, matches it at the start of
  the string (ignoring case), rejects the string when the match does not end where
  the string ends, and builds the \<^verbatim>\<open>datetime\<close> from the matched groups. Every failure is
  a \<^verbatim>\<open>ValueError\<close>, here \<open>None\<close>.

  The directives are those of \<^verbatim>\<open>date_formats\<close>; the literal characters of these formats
  are \<^verbatim>\<open>-\<close>, \<^verbatim>\<open>:\<close>, \<^verbatim>\<open>.\<close>, \<^verbatim>\<open>/\<close> and \<^verbatim>\<open>T\<close>. Strings are ASCII: the digits are \<^verbatim>\<open>0-9\<close>
  and the only letters that match \<^verbatim>\<open>T\<close> are \<^verbatim>\<open>T\<close> and \<^verbatim>\<open>t\<close>.
  The groups, with their alternatives in the order the matcher tries them:
  \<^verbatim>\<open>
  %d  3[0-1]|[1-2]\d|0[1-9]|[1-9]| [1-9]
  %f  [0-9]{1,6}
  %H  2[0-3]|[0-1]\d|\d
  %m  1[0-2]|0[1-9]|[1-9]
  %M  [0-5]\d|\d
  %S  6[0-1]|[0-5]\d|\d
  %Y  \d\d\d\d
  \<close>
\<close>

datatype directive = DirY | Dirm | Dird | DirH | DirM | DirS | Dirf | Lit char

definition directive_of :: "char \<Rightarrow> directive option" where
  "directive_of c =
     map_of [(CHR ''Y'', DirY), (CHR ''m'', Dirm), (CHR ''d'', Dird), (CHR ''H'', DirH),
             (CHR ''M'', DirM), (CHR ''S'', DirS), (CHR ''f'', Dirf)] c"

fun compile_format :: "string \<Rightarrow> directive list option" where
  "compile_format [] = Some []"
| "compile_format [c] = (if c = CHR ''%'' then None else Some [Lit c])"
| "compile_format (c # d # cs) =
     (if c = CHR ''%'' then
        (case directive_of d of
           None \<Rightarrow> None
         | Some dir \<Rightarrow> map_option ((#) dir) (compile_format cs))
      else map_option ((#) (Lit c)) (compile_format (d # cs)))"

definition digit_of :: "char \<Rightarrow> nat option" where
  "digit_of c =
     map_of [(CHR ''0'', 0), (CHR ''1'', 1), (CHR ''2'', 2), (CHR ''3'', 3), (CHR ''4'', 4),
             (CHR ''5'', 5), (CHR ''6'', 6), (CHR ''7'', 7), (CHR ''8'', 8), (CHR ''9'', 9)] c"

definition digit_val :: "char \<Rightarrow> nat" where
  "digit_val c = (case digit_of c of None \<Rightarrow> 0 | Some n \<Rightarrow> n)"

definition is_digit :: "char \<Rightarrow> bool" where
  "is_digit c = (digit_of c \<noteq> None)"

text \<open>\<^verbatim>\<open>int(s)\<close> of a string of digits.\<close>

definition digits_to_nat :: "string \<Rightarrow> nat" where
  "digits_to_nat s = foldl (\<lambda>acc c. 10 * acc + digit_val c) 0 s"

text \<open>
  A matcher returns the ways its group can match at the start of the string, in the
  order of the alternatives: the value of the group and the rest of the string.
\<close>

fun two_chars :: "string \<Rightarrow> string \<Rightarrow> string \<Rightarrow> (nat \<times> string) list" where
  "two_chars p q (a # b # r) =
     (if a \<in> set p \<and> b \<in> set q then [(10 * digit_val a + digit_val b, r)] else [])"
| "two_chars p q _ = []"

fun one_char :: "string \<Rightarrow> string \<Rightarrow> (nat \<times> string) list" where
  "one_char p (a # r) = (if a \<in> set p then [(digit_val a, r)] else [])"
| "one_char p [] = []"

fun four_digits :: "string \<Rightarrow> (nat \<times> string) list" where
  "four_digits (a # b # c # d # r) =
     (if is_digit a \<and> is_digit b \<and> is_digit c \<and> is_digit d
      then [(digits_to_nat [a, b, c, d], r)] else [])"
| "four_digits _ = []"

text \<open>
  \<^verbatim>\<open>%f\<close> is greedy: the longest run of up to six digits first. The digits are padded
  with zeros on the right to six (\<^verbatim>\<open>s += "0" * (6 - len(s))\<close>).
\<close>

fun countdown :: "nat \<Rightarrow> nat list" where
  "countdown 0 = []"
| "countdown (Suc n) = Suc n # countdown n"

definition fraction :: "string \<Rightarrow> (nat \<times> string) list" where
  "fraction s =
     map (\<lambda>n. (digits_to_nat (take 6 (take n s @ ''000000'')), drop n s))
         (countdown (length (takeWhile is_digit (take 6 s))))"

text \<open>A literal character matches itself; the expression is compiled with \<^verbatim>\<open>IGNORECASE\<close>.\<close>

fun literal :: "char \<Rightarrow> string \<Rightarrow> (nat \<times> string) list" where
  "literal c (a # r) =
     (if a = c then [(0, r)] else if lower_char a = lower_char c then [(0, r)] else [])"
| "literal c [] = []"

fun match_directive :: "directive \<Rightarrow> string \<Rightarrow> (nat \<times> string) list" where
  "match_directive Dird s =
     two_chars ''3'' ''01'' s @ two_chars ''12'' ''0123456789'' s @ two_chars ''0'' ''123456789'' s
     @ one_char ''123456789'' s
     @ (case s of sp # r \<Rightarrow> if sp = CHR '' '' then one_char ''123456789'' r else [] | [] \<Rightarrow> [])"
| "match_directive Dirf s = fraction s"
| "match_directive DirH s =
     two_chars ''2'' ''0123'' s @ two_chars ''01'' ''0123456789'' s @ one_char ''0123456789'' s"
| "match_directive Dirm s =
     two_chars ''1'' ''012'' s @ two_chars ''0'' ''123456789'' s @ one_char ''123456789'' s"
| "match_directive DirM s = two_chars ''012345'' ''0123456789'' s @ one_char ''0123456789'' s"
| "match_directive DirS s =
     two_chars ''6'' ''01'' s @ two_chars ''012345'' ''0123456789'' s @ one_char ''0123456789'' s"
| "match_directive DirY s = four_digits s"
| "match_directive (Lit c) s = literal c s"

text \<open>
  The first match of the whole expression, backtracking over the alternatives of the
  groups: the values of the groups and what is left of the string. \<open>try_alts\<close> goes
  through the alternatives of one group and takes the first with which the rest of the
  expression matches.
\<close>

fun match_format :: "directive list \<Rightarrow> string \<Rightarrow> ((directive \<times> nat) list \<times> string) option"
  and try_alts ::
    "directive \<Rightarrow> directive list \<Rightarrow> (nat \<times> string) list
       \<Rightarrow> ((directive \<times> nat) list \<times> string) option"
where
  "match_format [] s = Some ([], s)"
| "match_format (d # ds) s = try_alts d ds (match_directive d s)"
| "try_alts d ds [] = None"
| "try_alts d ds ((v, r) # alts) =
     (case match_format ds r of
        Some (vs, r') \<Rightarrow> Some ((d, v) # vs, r')
      | None \<Rightarrow> try_alts d ds alts)"

fun set_field :: "directive \<times> nat \<Rightarrow> datetime \<Rightarrow> datetime" where
  "set_field (DirY, v) dt = dt\<lparr>year := v\<rparr>"
| "set_field (Dirm, v) dt = dt\<lparr>month := v\<rparr>"
| "set_field (Dird, v) dt = dt\<lparr>day := v\<rparr>"
| "set_field (DirH, v) dt = dt\<lparr>hour := v\<rparr>"
| "set_field (DirM, v) dt = dt\<lparr>minute := v\<rparr>"
| "set_field (DirS, v) dt = dt\<lparr>second := v\<rparr>"
| "set_field (Dirf, v) dt = dt\<lparr>microsecond := v\<rparr>"
| "set_field (Lit c, v) dt = dt"

text \<open>The fields a format does not set: 1 January 1900, midnight.\<close>

definition default_datetime :: datetime where
  "default_datetime =
     \<lparr>year = 1900, month = 1, day = 1, hour = 0, minute = 0, second = 0, microsecond = 0\<rparr>"

definition strptime :: "string \<Rightarrow> string \<Rightarrow> datetime option" where
  "strptime data_string fmt =
     (case compile_format fmt of
        None \<Rightarrow> None
      | Some ds \<Rightarrow>
          (case match_format ds data_string of
             None \<Rightarrow> None
           | Some (vals, rest) \<Rightarrow>
               if rest \<noteq> [] then None
               else (let dt = fold set_field vals default_datetime in
                     if valid_datetime dt then Some dt else None)))"

subsection \<open>\<^verbatim>\<open>parse_date\<close>\<close>

definition date_formats :: "string list" where
  "date_formats =
     [''%Y-%m-%dT%H:%M:%S'', ''%Y-%m-%dT%H:%M:%S.%f'',
      ''%Y-%m-%dT%H:%M:%SZ'', ''%Y-%m-%dT%H:%M:%S.%fZ'',
      ''%Y-%m-%d'', ''%d/%m/%Y'', ''%m/%d/%Y'']"

text \<open>\<^verbatim>\<open>s.replace(old, "")\<close>: every occurrence of \<^verbatim>\<open>old\<close>, from the left, is removed.\<close>

function remove_all :: "string \<Rightarrow> string \<Rightarrow> string" where
  "remove_all old [] = []"
| "remove_all old (c # cs) =
     (if old \<noteq> [] \<and> prefix old (c # cs) then remove_all old (drop (length old) (c # cs))
      else c # remove_all old cs)"
  by pat_completeness auto
termination
  by (relation "measure (\<lambda>(old, s). length s)") (auto simp: Suc_diff_le)

text \<open>\<^verbatim>\<open>s.rstrip("Z")\<close>\<close>

definition rstrip_Z :: "string \<Rightarrow> string" where
  "rstrip_Z s = rev (dropWhile (\<lambda>c. c = CHR ''Z'') (rev s))"

fun try_formats :: "string \<Rightarrow> string list \<Rightarrow> datetime option" where
  "try_formats cleaned [] = None"
| "try_formats cleaned (fmt # fmts) =
     (case strptime cleaned (rstrip_Z fmt) of
        Some dt \<Rightarrow> Some dt
      | None \<Rightarrow> try_formats cleaned fmts)"

fun parse_date :: "json \<Rightarrow> datetime option" where
  "parse_date (JStr date_value) = try_formats (rstrip_Z (remove_all ''+00:00'' date_value)) date_formats"
| "parse_date _ = None"

subsection \<open>Formatting\<close>

text \<open>
  The inverse direction, for the round trip: \<^verbatim>\<open>datetime.strftime\<close> on the same
  directives. \<^verbatim>\<open>%Y\<close> is the year in four digits, \<^verbatim>\<open>%m %d %H %M %S\<close> are two digits and
  \<^verbatim>\<open>%f\<close> is six, each padded with zeros on the left.
\<close>

definition zfill :: "nat \<Rightarrow> string \<Rightarrow> string" where
  "zfill w s = replicate (w - length s) CHR ''0'' @ s"

fun render :: "directive \<Rightarrow> datetime \<Rightarrow> string" where
  "render DirY dt = zfill 4 (str_nat (year dt))"
| "render Dirm dt = zfill 2 (str_nat (month dt))"
| "render Dird dt = zfill 2 (str_nat (day dt))"
| "render DirH dt = zfill 2 (str_nat (hour dt))"
| "render DirM dt = zfill 2 (str_nat (minute dt))"
| "render DirS dt = zfill 2 (str_nat (second dt))"
| "render Dirf dt = zfill 6 (str_nat (microsecond dt))"
| "render (Lit c) dt = [c]"

fun strftime :: "datetime \<Rightarrow> string \<Rightarrow> string" where
  "strftime dt [] = []"
| "strftime dt [c] = [c]"
| "strftime dt (c # d # cs) =
     (if c = CHR ''%'' then
        (case directive_of d of
           None \<Rightarrow> c # d # strftime dt cs
         | Some dir \<Rightarrow> render dir dt @ strftime dt cs)
      else c # strftime dt (d # cs))"

section \<open>Pagination Aggregator\<close>

text \<open>
  The first loop of \<^verbatim>\<open>fetch_kickplate_orders\<close>. \<open>get params\<close> is what
  \<^verbatim>\<open>cin7_get("/SalesOrders", params)\<close> returns (\<open>JNull\<close> after a failed call). A page
  is requested at most once in a cycle, so a function of the parameters describes any
  behaviour of the remote side. The loop returns \<^verbatim>\<open>all_orders\<close> and, for the record,
  the parameters of the calls it made, in order.
\<close>

definition fields_param :: string where
  "fields_param = py_join '','' SALES_ORDER_FIELDS"

definition where_clause :: string where
  "where_clause =
     py_join '' AND '' (map (\<lambda>s. ''Stage<>'' @ [CHR 0x27] @ s @ [CHR 0x27]) EXCLUDED_STAGES)"

definition page_params :: "nat \<Rightarrow> json" where
  "page_params page =
     JObj ([(''fields'', JStr fields_param),
            (''order'', JStr ''EstimatedDeliveryDate ASC, CreatedDate ASC''),
            (''page'', JInt (int page)),
            (''rows'', JInt 250)]
           @ (if where_clause \<noteq> [] then [(''where'', JStr where_clause)] else []))"

text \<open>
  The shape of a response:
  \<^verbatim>\<open>
  if isinstance(response, list):
      orders = response
  elif isinstance(response, dict):
      orders = response.get("data", response.get("Data", []))
      if not isinstance(orders, list):
          orders = [response] if response.get("Id") else []
  else:
      break
  \<close>
  \<open>None\<close> is the \<^verbatim>\<open>break\<close> of the last branch.
\<close>

fun response_orders :: "json \<Rightarrow> json list option" where
  "response_orders (JList xs) = Some xs"
| "response_orders (JObj d) =
     (case dict_get_default d ''data'' (dict_get_default d ''Data'' (JList [])) of
        JList xs \<Rightarrow> Some xs
      | _ \<Rightarrow> Some (if truthy (dict_get d ''Id'') then [JObj d] else []))"
| "response_orders _ = None"

function fetch_pages ::
  "(json \<Rightarrow> json) \<Rightarrow> nat \<Rightarrow> json list \<Rightarrow> json list \<Rightarrow> json list \<times> json list"
where
  "fetch_pages get page all_orders calls =
     (if page \<le> 100 then
        (let params = page_params page;
             response = get params;
             calls' = calls @ [params]
         in if response = JNull then (all_orders, calls')
            else (case response_orders response of
                    None \<Rightarrow> (all_orders, calls')
                  | Some orders \<Rightarrow>
                      if orders = [] then (all_orders, calls')
                      else if length orders < 250 then (all_orders @ orders, calls')
                      else fetch_pages get (page + 1) (all_orders @ orders) calls'))
      else (all_orders, calls))"
  by pat_completeness auto
termination
  by (relation "measure (\<lambda>(get, page, all_orders, calls). 101 - page)") auto

declare fetch_pages.simps [simp del]

text \<open>
  The records the aggregator takes from a response: those of \<open>response_orders\<close>, and
  none from \<^verbatim>\<open>None\<close> or from a document that is neither a list nor a dict.
\<close>

definition page_records :: "json \<Rightarrow> json list" where
  "page_records response =
     (if response = JNull then []
      else (case response_orders response of None \<Rightarrow> [] | Some orders \<Rightarrow> orders))"

text \<open>
  The conditions under which the loop stops at a page: the call failed, the page has no
  records, or it has fewer than 250.
\<close>

definition page_stops :: "json \<Rightarrow> bool" where
  "page_stops response =
     (response = JNull \<or> page_records response = [] \<or> length (page_records response) < 250)"

text \<open>The \<^verbatim>\<open>page\<close> and \<^verbatim>\<open>rows\<close> parameters of a call.\<close>

definition page_of :: "json \<Rightarrow> json" where
  "page_of params = (case params of JObj d \<Rightarrow> dict_get d ''page'' | _ \<Rightarrow> JNull)"

definition rows_of :: "json \<Rightarrow> json" where
  "rows_of params = (case params of JObj d \<Rightarrow> dict_get d ''rows'' | _ \<Rightarrow> JNull)"

section \<open>Order Classifier\<close>

text \<open>
  \<^verbatim>\<open>
  if etd:
      est_date = etd.date() if hasattr(etd, 'date') else etd
      days_until = (est_date - today).days
      if days_until < 0:
          is_overdue = True
          days_overdue = abs(days_until)
      elif days_until <= DUE_SOON_DAYS:
          is_due_soon = True
      else:
          is_on_track = True
  \<close>
  \<^verbatim>\<open>today\<close> is the date in the display time zone when the orders are processed. A
  \<^verbatim>\<open>datetime\<close> is always true.
\<close>

record due_flags =
  is_overdue :: bool
  is_due_soon :: bool
  is_on_track :: bool
  days_overdue :: int

definition days_until :: "datetime \<Rightarrow> date \<Rightarrow> int" where
  "days_until etd today = toordinal (date_of etd) - toordinal today"

definition due_status :: "datetime option \<Rightarrow> date \<Rightarrow> due_flags" where
  "due_status etd today =
     (case etd of
        None \<Rightarrow> \<lparr>is_overdue = False, is_due_soon = False, is_on_track = False, days_overdue = 0\<rparr>
      | Some e \<Rightarrow>
          if days_until e today < 0 then
            \<lparr>is_overdue = True, is_due_soon = False, is_on_track = False,
             days_overdue = \<bar>days_until e today\<bar>\<rparr>
          else if days_until e today \<le> DUE_SOON_DAYS then
            \<lparr>is_overdue = False, is_due_soon = True, is_on_track = False, days_overdue = 0\<rparr>
          else
            \<lparr>is_overdue = False, is_due_soon = False, is_on_track = True, days_overdue = 0\<rparr>)"


section \<open>Line-item quantities\<close>

text \<open>
  \<^verbatim>\<open>float(x)\<close>. A string is converted by Python's own parser, which is a parameter
  \<open>str_float\<close> here (\<open>None\<close> where it raises \<^verbatim>\<open>ValueError\<close>). An int too large for a
  double raises \<^verbatim>\<open>OverflowError\<close>; \<^verbatim>\<open>None\<close>, a list and a dict raise \<^verbatim>\<open>TypeError\<close>.
\<close>

definition float_overflow :: int where
  "float_overflow = 2 ^ 1024 - 2 ^ 970"

fun py_float :: "(string \<Rightarrow> pyfloat option) \<Rightarrow> json \<Rightarrow> py_error + pyfloat" where
  "py_float str_float JNull = Inl TypeError"
| "py_float str_float (JBool b) = Inr (Finite (if b then 1 else 0))"
| "py_float str_float (JInt n) =
     (if \<bar>n\<bar> \<ge> float_overflow then Inl OverflowError else Inr (Finite (of_int n)))"
| "py_float str_float (JFloat f) = Inr f"
| "py_float str_float (JStr s) =
     (case str_float s of None \<Rightarrow> Inl ValueError | Some f \<Rightarrow> Inr f)"
| "py_float str_float (JList xs) = Inl TypeError"
| "py_float str_float (JObj d) = Inl TypeError"

text \<open>The sum of two floats.\<close>

fun fadd :: "pyfloat \<Rightarrow> pyfloat \<Rightarrow> pyfloat" where
  "fadd (Finite a) (Finite b) = Finite (a + b)"
| "fadd NaN y = NaN"
| "fadd x NaN = NaN"
| "fadd PosInf NegInf = NaN"
| "fadd NegInf PosInf = NaN"
| "fadd PosInf y = PosInf"
| "fadd NegInf y = NegInf"
| "fadd x PosInf = PosInf"
| "fadd x NegInf = NegInf"

text \<open>
  \<^verbatim>\<open>int(x)\<close> of a float truncates towards zero; it raises \<^verbatim>\<open>OverflowError\<close> on an
  infinity and \<^verbatim>\<open>ValueError\<close> on a NaN.
\<close>

definition py_trunc :: "rat \<Rightarrow> int" where
  "py_trunc q = (if q < 0 then \<lceil>q\<rceil> else \<lfloor>q\<rfloor>)"

fun py_int :: "pyfloat \<Rightarrow> py_error + int" where
  "py_int (Finite q) = Inr (py_trunc q)"
| "py_int PosInf = Inl OverflowError"
| "py_int NegInf = Inl OverflowError"
| "py_int NaN = Inl ValueError"

text \<open>
  \<^verbatim>\<open>
  qty = item.get("Qty") or item.get("qty") or item.get("UomQtyOrdered")
        or item.get("uomQtyOrdered") or 0
  \<close>
\<close>

definition item_qty :: "(string \<times> json) list \<Rightarrow> json" where
  "item_qty item =
     py_or (py_or (py_or (py_or (dict_get item ''Qty'') (dict_get item ''qty''))
                         (dict_get item ''UomQtyOrdered''))
                  (dict_get item ''uomQtyOrdered''))
           (JInt 0)"

text \<open>
  \<^verbatim>\<open>
  for item in (line_items if isinstance(line_items, list) else []):
      qty = ...
      try:
          qty_total += float(qty)
      except (TypeError, ValueError):
          pass
  \<close>
  \<^verbatim>\<open>item.get\<close> raises \<^verbatim>\<open>AttributeError\<close> on an item that is not a dict, and an
  \<^verbatim>\<open>OverflowError\<close> is not caught: both leave the function.
\<close>

fun sum_line_items ::
  "(string \<Rightarrow> pyfloat option) \<Rightarrow> json list \<Rightarrow> pyfloat \<Rightarrow> py_error + pyfloat"
where
  "sum_line_items str_float [] qty_total = Inr qty_total"
| "sum_line_items str_float (JObj item # items) qty_total =
     (case py_float str_float (item_qty item) of
        Inr f \<Rightarrow> sum_line_items str_float items (fadd qty_total f)
      | Inl TypeError \<Rightarrow> sum_line_items str_float items qty_total
      | Inl ValueError \<Rightarrow> sum_line_items str_float items qty_total
      | Inl e \<Rightarrow> Inl e)"
| "sum_line_items str_float (_ # items) qty_total = Inl AttributeError"





section \<open>Normalizing the orders\<close>

text \<open>
  One card of the board. The display strings of the source dict (\<^verbatim>\<open>reference\<close>,
  \<^verbatim>\<open>projectName\<close>, \<^verbatim>\<open>firstName\<close>, \<^verbatim>\<open>cin7Url\<close>, and the dates rendered by
  \<^verbatim>\<open>strftime\<close>) are built by \<^verbatim>\<open>str\<close>, \<^verbatim>\<open>html.escape\<close> and string formatting, which do
  not fail and decide nothing; the card keeps the parsed dates in their place.
\<close>

record job =
  job_id :: json
  stage :: string
  createdDate :: "datetime option"
  etd :: "datetime option"
  qtyTotal :: int
  isOverdue :: bool
  isDueSoon :: bool
  isOnTrack :: bool
  daysOverdue :: int

definition bind_err :: "'e + 'a \<Rightarrow> ('a \<Rightarrow> 'e + 'b) \<Rightarrow> 'e + 'b" where
  "bind_err m f = (case m of Inl e \<Rightarrow> Inl e | Inr x \<Rightarrow> f x)"

text \<open>\<^verbatim>\<open>order.get("IsVoid") or order.get("isVoid")\<close> is true.\<close>

definition is_void :: "(string \<times> json) list \<Rightarrow> bool" where
  "is_void order = truthy (py_or (dict_get order ''IsVoid'') (dict_get order ''isVoid''))"

text \<open>
  \<^verbatim>\<open>line_items = gf("LineItems") or []\<close>, then the list itself or \<^verbatim>\<open>[]\<close> when it is not
  a list.
\<close>

definition line_items_of :: "json \<Rightarrow> json list" where
  "line_items_of v = (case py_or v (JList []) of JList xs \<Rightarrow> xs | _ \<Rightarrow> [])"

text \<open>
  The body of the second loop of \<^verbatim>\<open>fetch_kickplate_orders\<close> for one order:
  \<open>Inr None\<close> is \<^verbatim>\<open>continue\<close>, \<open>Inr (Some j)\<close> the card appended to
  \<^verbatim>\<open>processed\<close>, \<open>Inl e\<close> an exception that nothing in the function catches.
  \<^verbatim>\<open>stage.startswith\<close> exists on a string only.
\<close>

definition process_order ::
  "(string \<Rightarrow> pyfloat option) \<Rightarrow> date \<Rightarrow> json \<Rightarrow> py_error + job option"
where
  "process_order str_float today order =
     (case order of
        JObj d \<Rightarrow>
          if is_void d then Inr None
          else
            bind_err (gf d ''Stage'') (\<lambda>stage_value.
              case py_or stage_value (JStr []) of
                JStr stg \<Rightarrow>
                  if \<not> prefix KICKPLATE_STAGE_PREFIX stg then Inr None
                  else
                    bind_err (gf d ''EstimatedDeliveryDate'') (\<lambda>etd_value.
                    bind_err (gf d ''CreatedDate'') (\<lambda>created_value.
                    bind_err (gf d ''LineItems'') (\<lambda>line_items.
                    bind_err (sum_line_items str_float (line_items_of line_items) (Finite 0))
                      (\<lambda>qty_total.
                    bind_err (gf d ''Id'') (\<lambda>order_id.
                    bind_err (py_int qty_total) (\<lambda>qty.
                      let flags = due_status (parse_date etd_value) today in
                      Inr (Some \<lparr>job_id = order_id,
                                 stage = stg,
                                 createdDate = parse_date created_value,
                                 etd = parse_date etd_value,
                                 qtyTotal = qty,
                                 isOverdue = is_overdue flags,
                                 isDueSoon = is_due_soon flags,
                                 isOnTrack = is_on_track flags,
                                 daysOverdue = days_overdue flags\<rparr>)))))))
              | _ \<Rightarrow> Inl AttributeError)
      | _ \<Rightarrow> Inl AttributeError)"

fun process_orders ::
  "(string \<Rightarrow> pyfloat option) \<Rightarrow> date \<Rightarrow> json list \<Rightarrow> job list \<Rightarrow> py_error + job list"
where
  "process_orders str_float today [] processed = Inr processed"
| "process_orders str_float today (order # rest) processed =
     (case process_order str_float today order of
        Inl e \<Rightarrow> Inl e
      | Inr None \<Rightarrow> process_orders str_float today rest processed
      | Inr (Some j) \<Rightarrow> process_orders str_float today rest (processed @ [j]))"

definition fetch_kickplate_orders ::
  "(string \<Rightarrow> pyfloat option) \<Rightarrow> date \<Rightarrow> (json \<Rightarrow> json) \<Rightarrow> py_error + job list"
where
  "fetch_kickplate_orders str_float today get =
     process_orders str_float today (fst (fetch_pages get 1 [] [])) []"

text \<open>
  The remote side of a whole cycle gives, for the parameters of a call, the remote side
  of that call.
\<close>

definition remote_get :: "(json \<Rightarrow> server) \<Rightarrow> json \<Rightarrow> json" where
  "remote_get world params = fst (cin7_get (world params) ''/SalesOrders'' params)"

text \<open>
  The \<^verbatim>\<open>stage\<close> variable of the loop (\<^verbatim>\<open>gf("Stage") or ""\<close>), and the records that the
  loop keeps: not void, with a stage string that starts with the kickplate prefix.
\<close>

definition raw_stage :: "(string \<times> json) list \<Rightarrow> json" where
  "raw_stage d = (case gf d ''Stage'' of Inr v \<Rightarrow> py_or v (JStr []) | Inl e \<Rightarrow> JNull)"

definition in_scope :: "json \<Rightarrow> bool" where
  "in_scope order =
     (case order of
        JObj d \<Rightarrow>
          \<not> is_void d \<and>
          (case raw_stage d of JStr stg \<Rightarrow> prefix KICKPLATE_STAGE_PREFIX stg | _ \<Rightarrow> False)
      | _ \<Rightarrow> False)"

section \<open>The board: \<^verbatim>\<open>api_jobs\<close>\<close>

text \<open>
  \<^verbatim>\<open>
  orders = fetch_kickplate_orders()
  grouped = {stage: [] for stage in KICKPLATE_STAGES}
  for order in orders:
      stage = order["stage"]
      if stage in grouped:
          grouped[stage].append(order)
  \<close>
  The answer carries \<^verbatim>\<open>grouped\<close> and \<^verbatim>\<open>len(orders)\<close> (and the time of the answer, left
  out here). An exception becomes the error answer, \<open>Inl\<close>.
\<close>

record board =
  jobs :: "(string \<times> job list) list"
  totalCount :: nat

definition group_order :: "(string \<times> job list) list \<Rightarrow> job \<Rightarrow> (string \<times> job list) list" where
  "group_order grouped order =
     (if stage order \<in> set (map fst grouped) then
        map (\<lambda>(s, js). if s = stage order then (s, js @ [order]) else (s, js)) grouped
      else grouped)"

definition group_orders :: "job list \<Rightarrow> (string \<times> job list) list" where
  "group_orders orders = foldl group_order (map (\<lambda>s. (s, [])) KICKPLATE_STAGES) orders"

definition api_jobs ::
  "(string \<Rightarrow> pyfloat option) \<Rightarrow> date \<Rightarrow> (json \<Rightarrow> json) \<Rightarrow> py_error + board"
where
  "api_jobs str_float today get =
     (case fetch_kickplate_orders str_float today get of
        Inl e \<Rightarrow> Inl e
      | Inr orders \<Rightarrow> Inr \<lparr>jobs = group_orders orders, totalCount = length orders\<rparr>)"

section \<open>Reading a list of events\<close>

fun sent_payloads :: "event list \<Rightarrow> json list" where
  "sent_payloads [] = []"
| "sent_payloads (HttpPut path payload # tr) = payload # sent_payloads tr"
| "sent_payloads (_ # tr) = sent_payloads tr"

fun sleeps :: "event list \<Rightarrow> rat list" where
  "sleeps [] = []"
| "sleeps (Sleep t # tr) = t # sleeps tr"
| "sleeps (_ # tr) = sleeps tr"

fun requests :: "event list \<Rightarrow> nat" where
  "requests [] = 0"
| "requests (HttpGet path params # tr) = Suc (requests tr)"
| "requests (HttpPut path payload # tr) = Suc (requests tr)"
| "requests (_ # tr) = requests tr"

text \<open>
  The events of \<open>k\<close> rate-limited attempts from attempt \<open>a\<close> on: each sends the request
  and sleeps.
\<close>

definition retries :: "event \<Rightarrow> nat \<Rightarrow> nat \<Rightarrow> event list" where
  "retries req a k = concat (map (\<lambda>i. [req, rate_limit_sleep i]) [a..<a + k])"

definition is_429 :: "http_failure + response \<Rightarrow> bool" where
  "is_429 x = (case x of Inr r \<Rightarrow> status_code r = 429 | Inl f \<Rightarrow> False)"

section \<open>Concrete inputs\<close>

text \<open>Remote sides, records and dates on which the properties below are evaluated.\<close>

definition two_429_then_200 :: server where
  "two_429_then_200 n =
     (if n < 2 then Inr (Response 429 ''slow down'' (Inl ''no JSON''))
      else Inr (Response 200 ''[]'' (Inr (JList []))))"

definition three_429_then_200 :: server where
  "three_429_then_200 n =
     (if n < 3 then Inr (Response 429 ''slow down'' (Inl ''no JSON''))
      else Inr (Response 200 ''[]'' (Inr (JList []))))"

definition accepted_without_json :: server where
  "accepted_without_json n = Inr (Response 202 ''Accepted'' (Inl ''Expecting value''))"

definition ok_with_number_list :: server where
  "ok_with_number_list n = Inr (Response 200 ''[1]'' (Inr (JList [JInt 1])))"

definition ok_with_failure_marker :: server where
  "ok_with_failure_marker n =
     Inr (Response 200 ''...''
            (Inr (JList [JObj [(''success'', JBool False),
                               (''errors'', JList [JStr ''Stage is locked'', JStr ''Order is void''])]])))"

definition no_content :: server where
  "no_content n = Inr (Response 204 [] (Inl ''Expecting value''))"

definition always_ok :: server where
  "always_ok n = Inr (Response 200 ''[]'' (Inr (JList [])))"

definition sample_record :: json where
  "sample_record = JObj [(''Id'', JInt 1), (''Stage'', JStr ''Kickplate - New'')]"

definition full_page_then_failure :: "json \<Rightarrow> json" where
  "full_page_then_failure params =
     (if page_of params = JInt 1 then JList (replicate 250 sample_record) else JNull)"

definition short_second_page :: "json \<Rightarrow> json" where
  "short_second_page params =
     (if page_of params = JInt 2 then JList (replicate 100 sample_record)
      else JObj [(''data'', JList (replicate 250 sample_record))])"

definition today_sample :: date where
  "today_sample = \<lparr>d_year = 2024, d_month = 3, d_day = 5\<rparr>"

definition str_float_sample :: "string \<Rightarrow> pyfloat option" where
  "str_float_sample s = (if s = ''2.5'' then Some (Finite (5 / 2)) else None)"




definition new_order :: json where
  "new_order = JObj [(''Id'', JInt 1), (''Stage'', JStr ''Kickplate - New''), (''IsVoid'', JBool False)]"

definition void_order :: json where
  "void_order = JObj [(''Id'', JInt 2), (''stage'', JStr ''Kickplate - Processing''), (''isVoid'', JBool True)]"

definition archived_order :: json where
  "archived_order = JObj [(''Id'', JInt 3), (''Stage'', JStr ''Kickplate - Archived'')]"

definition dispatched_order :: json where
  "dispatched_order = JObj [(''Id'', JInt 4), (''Stage'', JStr ''Dispatched'')]"

definition board_page :: "json \<Rightarrow> json" where
  "board_page params =
     (if page_of params = JInt 1
      then JList [new_order, void_order, archived_order, dispatched_order]
      else JNull)"

definition card :: "int \<Rightarrow> string \<Rightarrow> job" where
  "card n stg =
     \<lparr>job_id = JInt n, stage = stg, createdDate = None, etd = None,
      qtyTotal = 0, isOverdue = False, isDueSoon = False, isOnTrack = False, daysOverdue = 0\<rparr>"

definition fifth_of_march :: datetime where
  "fifth_of_march =
     \<lparr>year = 2024, month = 3, day = 5, hour = 0, minute = 0, second = 0, microsecond = 0\<rparr>"

definition third_of_may :: datetime where
  "third_of_may =
     \<lparr>year = 2024, month = 5, day = 3, hour = 0, minute = 0, second = 0, microsecond = 0\<rparr>"

section \<open>Properties\<close>

lemmas dict_simps = dict_get_def dict_get_default_def

subsection \<open>Field resolution\<close>

text \<open>
  C5. For a field name that is not empty, \<open>gf\<close> returns the value under the exact
  name when that value is true in Python's sense, whatever the lower-cased key holds.
  When the exact key is absent, or present with a value that is not true (\<^verbatim>\<open>None\<close>,
  \<^verbatim>\<open>False\<close>, \<^verbatim>\<open>0\<close>, \<^verbatim>\<open>""\<close>, \<^verbatim>\<open>[]\<close>, \<^verbatim>\<open>{}\<close>), it returns what \<^verbatim>\<open>get\<close> gives for the
  name with its first character lower-cased (\<^verbatim>\<open>None\<close> when that key is absent too). It
  agrees with the resolution by presence whenever the value under the exact name, if
  there is one, is true.
\<close>

theorem gf_first_truthy:
  assumes "name \<noteq> []"
  shows "(\<forall>v. map_of order name = Some v \<and> truthy v \<longrightarrow> gf order name = Inr v) \<and>
         ((map_of order name = None \<or> (\<exists>v. map_of order name = Some v \<and> \<not> truthy v)) \<longrightarrow>
            gf order name = Inr (dict_get order (lower_char (hd name) # tl name))) \<and>
         ((\<forall>v. map_of order name = Some v \<longrightarrow> truthy v) \<longrightarrow>
            gf order name = resolve_spec order name)"
  using assms
  by (cases name) (auto simp: gf_def resolve_spec_def dict_simps lower_first_def Let_def split: option.splits)

theorem gf_first_truthy_witness:
  "''Stage'' \<noteq> [] \<and>
   gf [(''Stage'', JStr ''Kickplate - New''), (''stage'', JStr ''Dispatched'')] ''Stage''
     = Inr (JStr ''Kickplate - New'') \<and>
   gf [(''stage'', JStr ''Dispatched'')] ''Stage'' = Inr (JStr ''Dispatched'') \<and>
   gf [(''Stage'', JStr ''''), (''stage'', JStr ''Dispatched'')] ''Stage'' = Inr (JStr ''Dispatched'') \<and>
   gf [(''Stage'', JStr ''Kickplate - New'')] ''Stage''
     = resolve_spec [(''Stage'', JStr ''Kickplate - New'')] ''Stage''"
  using gf_first_truthy [of "''Stage''" "[(''Stage'', JStr ''Kickplate - New''), (''stage'', JStr ''Dispatched'')]"]
        gf_first_truthy [of "''Stage''" "[(''stage'', JStr ''Dispatched'')]"]
        gf_first_truthy [of "''Stage''" "[(''Stage'', JStr ''''), (''stage'', JStr ''Dispatched'')]"]
        gf_first_truthy [of "''Stage''" "[(''Stage'', JStr ''Kickplate - New'')]"]
  by (simp add: dict_simps lower_char_def resolve_spec_def)

theorem gf_pascal_present_counterexample:
  "map_of [(''Id'', JInt 0), (''id'', JInt 7)] ''Id'' = Some (JInt 0) \<and>
   gf [(''Id'', JInt 0), (''id'', JInt 7)] ''Id'' = Inr (JInt 7) \<and>
   resolve_spec [(''Id'', JInt 0), (''id'', JInt 7)] ''Id'' = Inr (JInt 0) \<and>
   gf [(''Id'', JInt 0), (''id'', JInt 7)] ''Id'' \<noteq> resolve_spec [(''Id'', JInt 0), (''id'', JInt 7)] ''Id''"
  by (simp add: gf_def resolve_spec_def dict_simps lower_first_def lower_char_def)

subsection \<open>Due-date classification\<close>




subsection \<open>Rate limiting\<close>

lemma get_attempt_429: "is_429 x \<Longrightarrow> get_attempt x = RateLimited"
  by (cases x) (auto simp: is_429_def)

lemma put_attempt_429: "is_429 x \<Longrightarrow> put_attempt x = RateLimited"
  by (cases x) (auto simp: is_429_def)

lemma retries_Suc: "retries req a (Suc k) = [req, rate_limit_sleep a] @ retries req (Suc a) k"
  by (simp add: retries_def upt_rec)

lemma retries_0: "retries req a 0 = []"
  by (simp add: retries_def)

lemma get_loop_429:
  "\<lbrakk>\<forall>i. a \<le> i \<and> i < a + k \<longrightarrow> is_429 (srv i); a + k \<le> API_MAX_RETRIES\<rbrakk> \<Longrightarrow>
   cin7_get_loop srv path params a le tr =
   cin7_get_loop srv path params (a + k) le (tr @ retries (HttpGet path params) a k)"
proof (induction k arbitrary: a tr)
  case 0
  then show ?case by (simp add: retries_0)
next
  case (Suc k)
  have a: "a < API_MAX_RETRIES" using Suc.prems by simp
  have "is_429 (srv a)" using Suc.prems by simp
  then have s: "get_attempt (srv a) = RateLimited" by (rule get_attempt_429)
  have "cin7_get_loop srv path params a le tr =
        cin7_get_loop srv path params (Suc a) le (tr @ [HttpGet path params, rate_limit_sleep a])"
    using a s by (subst cin7_get_loop.simps) simp
  also have "\<dots> = cin7_get_loop srv path params (Suc a + k) le
        ((tr @ [HttpGet path params, rate_limit_sleep a]) @ retries (HttpGet path params) (Suc a) k)"
    using Suc.prems by (intro Suc.IH) auto
  finally show ?case by (simp add: retries_Suc)
qed

lemma put_loop_429:
  "\<lbrakk>\<forall>i. a \<le> i \<and> i < a + k \<longrightarrow> is_429 (srv i); a + k \<le> API_MAX_RETRIES\<rbrakk> \<Longrightarrow>
   cin7_put_loop srv path payload a le tr =
   cin7_put_loop srv path payload (a + k) le (tr @ retries (HttpPut path payload) a k)"
proof (induction k arbitrary: a tr)
  case 0
  then show ?case by (simp add: retries_0)
next
  case (Suc k)
  have a: "a < API_MAX_RETRIES" using Suc.prems by simp
  have "is_429 (srv a)" using Suc.prems by simp
  then have s: "put_attempt (srv a) = RateLimited" by (rule put_attempt_429)
  have "cin7_put_loop srv path payload a le tr =
        cin7_put_loop srv path payload (Suc a) le (tr @ [HttpPut path payload, rate_limit_sleep a])"
    using a s by (subst cin7_put_loop.simps) simp
  also have "\<dots> = cin7_put_loop srv path payload (Suc a + k) le
        ((tr @ [HttpPut path payload, rate_limit_sleep a]) @ retries (HttpPut path payload) (Suc a) k)"
    using Suc.prems by (intro Suc.IH) auto
  finally show ?case by (simp add: retries_Suc)
qed

lemma sleeps_append: "sleeps (xs @ ys) = sleeps xs @ sleeps ys"
  by (induction xs rule: sleeps.induct) auto

lemma requests_append: "requests (xs @ ys) = requests xs + requests ys"
  by (induction xs rule: requests.induct) auto

lemma sleeps_retries:
  "req = HttpGet p q \<or> req = HttpPut p q \<Longrightarrow>
   sleeps (retries req a k) = map (\<lambda>i. API_RETRY_DELAY * (of_nat i + 1) * 2) [a..<a + k]"
proof (induction k arbitrary: a)
  case 0 then show ?case by (simp add: retries_0)
next
  case (Suc k)
  have "[a..<a + Suc k] = a # [Suc a..<Suc a + k]" by (simp add: upt_rec)
  then show ?case using Suc.prems Suc.IH [of "Suc a"]
    by (auto simp: retries_Suc rate_limit_sleep_def)
qed

lemma requests_retries:
  "req = HttpGet p q \<or> req = HttpPut p q \<Longrightarrow> requests (retries req a k) = k"
proof (induction k arbitrary: a)
  case 0 then show ?case by (simp add: retries_0)
next
  case (Suc k)
  then show ?case using Suc.IH [of "Suc a"]
    by (auto simp: retries_Suc rate_limit_sleep_def)
qed

lemma backoff_increasing:
  "sorted_wrt (<) (map (\<lambda>i. API_RETRY_DELAY * (of_nat i + 1) * 2) [a..<a + k])"
  by (simp add: sorted_wrt_map API_RETRY_DELAY_def sorted_wrt_iff_nth_less)

text \<open>
  C1. When the first \<open>k\<close> responses of a call are HTTP 429: each of them is followed by
  a sleep of \<open>API_RETRY_DELAY * attempt * 2\<close> (attempts counted from 1), so the \<open>k\<close>
  delays are strictly increasing, and each uses up one of the three attempts. With
  \<open>k < 3\<close> and a success status next (200 for GET with a JSON body; 200, 201 or 204 for
  PUT), the call returns after exactly \<open>k\<close> delayed retries and one more request: the
  document for GET, the outcome of the body inspection for PUT. With \<open>k = 3\<close> the attempts
  are used up: the call sleeps three times, sends no fourth request, logs the failure and
  fails (\<^verbatim>\<open>None\<close> for GET, \<^verbatim>\<open>{"success": False, "error": None}\<close> for PUT).
\<close>

theorem rate_limit_backoff:
  assumes "\<forall>i<k. is_429 (srv i)"
  shows
   "(let g = HttpGet path params;
         p = HttpPut path (wrap_payload data);
         delays = map (\<lambda>i. API_RETRY_DELAY * (of_nat i + 1) * 2) [0..<k]
     in
       (k < API_MAX_RETRIES \<longrightarrow>
          (\<forall>r j. srv k = Inr r \<and> status_code r = 200 \<and> json_body r = Inr j \<longrightarrow>
             cin7_get srv path params = (j, retries g 0 k @ [g])) \<and>
          (\<forall>r. srv k = Inr r \<and> status_code r \<in> {200, 201, 204} \<longrightarrow>
             cin7_put srv path data = (check_put_body (json_body r), retries p 0 k @ [p]))) \<and>
       (k = API_MAX_RETRIES \<longrightarrow>
          cin7_get srv path params =
            (JNull, retries g 0 k @
               [LogError (''Cin7 GET '' @ path @ '' failed after 3 attempts: None'')]) \<and>
          cin7_put srv path data =
            (Inr (Failure None), retries p 0 k @
               [LogError (''Cin7 PUT '' @ path @ '' failed: None'')])) \<and>
       requests (retries g 0 k) = k \<and> requests (retries p 0 k) = k \<and>
       sleeps (retries g 0 k) = delays \<and> sleeps (retries p 0 k) = delays \<and>
       sorted_wrt (<) delays)"
proof -
  let ?g = "HttpGet path params"
  let ?p = "HttpPut path (wrap_payload data)"
  have all: "\<forall>i. 0 \<le> i \<and> i < 0 + k \<longrightarrow> is_429 (srv i)" using assms by simp
  have get_ok: "cin7_get srv path params = (j, retries ?g 0 k @ [?g])"
    if "k < API_MAX_RETRIES" "srv k = Inr r" "status_code r = 200" "json_body r = Inr j" for r j
  proof -
    have "cin7_get srv path params = cin7_get_loop srv path params (0 + k) None ([] @ retries ?g 0 k)"
      unfolding cin7_get_def using all that(1) by (intro get_loop_429) auto
    also have "\<dots> = (j, retries ?g 0 k @ [?g])"
      using that by (subst cin7_get_loop.simps) simp
    finally show ?thesis .
  qed
  have put_ok: "cin7_put srv path data = (check_put_body (json_body r), retries ?p 0 k @ [?p])"
    if "k < API_MAX_RETRIES" "srv k = Inr r" "status_code r \<in> {200, 201, 204}" for r
  proof -
    have "cin7_put srv path data =
          cin7_put_loop srv path (wrap_payload data) (0 + k) None ([] @ retries ?p 0 k)"
      unfolding cin7_put_def using all that(1) by (intro put_loop_429) auto
    also have "\<dots> = (check_put_body (json_body r), retries ?p 0 k @ [?p])"
      using that by (subst cin7_put_loop.simps) auto
    finally show ?thesis .
  qed
  have get_fail: "cin7_get srv path params =
       (JNull, retries ?g 0 k @ [LogError (''Cin7 GET '' @ path @ '' failed after 3 attempts: None'')])"
    if "k = API_MAX_RETRIES"
  proof -
    have "cin7_get srv path params = cin7_get_loop srv path params (0 + k) None ([] @ retries ?g 0 k)"
      unfolding cin7_get_def using all that by (intro get_loop_429) auto
    also have "\<dots> = (JNull, retries ?g 0 k @
        [LogError (''Cin7 GET '' @ path @ '' failed after 3 attempts: None'')])"
      using that
      by (subst cin7_get_loop.simps)
         (simp add: API_MAX_RETRIES_def str_opt_def str_int_def str_nat.simps digit_char_def)
    finally show ?thesis .
  qed
  have put_fail: "cin7_put srv path data =
       (Inr (Failure None), retries ?p 0 k @ [LogError (''Cin7 PUT '' @ path @ '' failed: None'')])"
    if "k = API_MAX_RETRIES"
  proof -
    have "cin7_put srv path data =
          cin7_put_loop srv path (wrap_payload data) (0 + k) None ([] @ retries ?p 0 k)"
      unfolding cin7_put_def using all that by (intro put_loop_429) auto
    also have "\<dots> = (Inr (Failure None), retries ?p 0 k @
        [LogError (''Cin7 PUT '' @ path @ '' failed: None'')])"
      using that by (subst cin7_put_loop.simps) (simp add: str_opt_def)
    finally show ?thesis .
  qed
  have obs: "requests (retries ?g 0 k) = k" "requests (retries ?p 0 k) = k"
    "sleeps (retries ?g 0 k) = map (\<lambda>i. API_RETRY_DELAY * (of_nat i + 1) * 2) [0..<k]"
    "sleeps (retries ?p 0 k) = map (\<lambda>i. API_RETRY_DELAY * (of_nat i + 1) * 2) [0..<k]"
    "sorted_wrt (<) (map (\<lambda>i. API_RETRY_DELAY * (of_nat i + 1) * 2) [0..<k])"
    using requests_retries [of ?g path params 0 k] requests_retries [of ?p path "wrap_payload data" 0 k]
      sleeps_retries [of ?g path params 0 k] sleeps_retries [of ?p path "wrap_payload data" 0 k]
      backoff_increasing [of 0 k]
    by simp_all
  show ?thesis
    unfolding Let_def using get_ok put_ok get_fail put_fail obs by blast
qed
lemmas retries_eval = retries_def rate_limit_sleep_def API_RETRY_DELAY_def upt_rec

theorem rate_limit_backoff_witness:
  "cin7_get two_429_then_200 ''/SalesOrders'' JNull =
     (JList [],
      [HttpGet ''/SalesOrders'' JNull, Sleep 2, HttpGet ''/SalesOrders'' JNull, Sleep 4,
       HttpGet ''/SalesOrders'' JNull]) \<and>
   cin7_put two_429_then_200 ''/SalesOrders'' (JObj []) =
     (Inr Success,
      [HttpPut ''/SalesOrders'' (JList [JObj []]), Sleep 2,
       HttpPut ''/SalesOrders'' (JList [JObj []]), Sleep 4,
       HttpPut ''/SalesOrders'' (JList [JObj []])]) \<and>
   sorted_wrt (<) [2, 4 :: rat]"
proof -
  have h: "\<forall>i<2. is_429 (two_429_then_200 i)"
    by (simp add: two_429_then_200_def is_429_def)
  have e: "two_429_then_200 2 = Inr (Response 200 ''[]'' (Inr (JList [])))"
    by (simp add: two_429_then_200_def)
  show ?thesis
    using rate_limit_backoff [OF h, of "''/SalesOrders''" JNull "JObj []"]
    by (simp add: Let_def API_MAX_RETRIES_def e retries_eval)
qed

theorem three_429_then_200_counterexample:
  "is_429 (three_429_then_200 0) \<and> is_429 (three_429_then_200 1) \<and> is_429 (three_429_then_200 2) \<and>
   three_429_then_200 3 = Inr (Response 200 ''[]'' (Inr (JList []))) \<and>
   cin7_get three_429_then_200 ''/SalesOrders'' JNull =
     (JNull,
      [HttpGet ''/SalesOrders'' JNull, Sleep 2, HttpGet ''/SalesOrders'' JNull, Sleep 4,
       HttpGet ''/SalesOrders'' JNull, Sleep 6,
       LogError ''Cin7 GET /SalesOrders failed after 3 attempts: None'']) \<and>
   cin7_put three_429_then_200 ''/SalesOrders'' (JObj []) =
     (Inr (Failure None),
      [HttpPut ''/SalesOrders'' (JList [JObj []]), Sleep 2,
       HttpPut ''/SalesOrders'' (JList [JObj []]), Sleep 4,
       HttpPut ''/SalesOrders'' (JList [JObj []]), Sleep 6,
       LogError ''Cin7 PUT /SalesOrders failed: None''])"
  by (simp add: three_429_then_200_def is_429_def cin7_get_def cin7_put_def
        cin7_get_loop.simps cin7_put_loop.simps API_MAX_RETRIES_def rate_limit_sleep_def
        API_RETRY_DELAY_def str_opt_def str_int_def str_nat.simps digit_char_def)

subsection \<open>Inspection of a PUT response\<close>

lemma put_first_attempt:
  assumes "srv 0 = Inr r" "status_code r \<in> {200, 201, 204}"
  shows "cin7_put srv path data = (check_put_body (json_body r), [HttpPut path (wrap_payload data)])"
  unfolding cin7_put_def using assms
  by (subst cin7_put_loop.simps) (auto simp: API_MAX_RETRIES_def)

lemma the_strings_map: "the_strings (map JStr es) = Some es"
  by (induction es) auto

text \<open>
  C4. For a PUT call whose first response has status 200, 201 or 204, the call ends
  with that one request (no retry, no sleep). If the body decodes to a non-empty list
  whose first element is an object with \<^verbatim>\<open>"success": false\<close>, the call returns the logical
  failure: the error strings joined with \<^verbatim>\<open>"; "\<close> when \<^verbatim>\<open>errors\<close> is a non-empty list of
  strings, the fixed text \<^verbatim>\<open>Cin7 reported failure\<close> when \<^verbatim>\<open>errors\<close> is absent, empty or
  otherwise not true. If the body does not decode, or is not a list, or is the empty
  list, or its first element is an object whose \<^verbatim>\<open>success\<close> is not \<^verbatim>\<open>false\<close>, the call
  returns success.
\<close>

theorem put_body_inspection:
  assumes "srv 0 = Inr r" and "status_code r \<in> {200, 201, 204}"
  shows
   "(\<forall>item rest es.
        json_body r = Inr (JList (JObj item # rest)) \<and> dict_get item ''success'' = JBool False \<and>
        dict_get_default item ''errors'' (JList []) = JList (map JStr es) \<longrightarrow>
        cin7_put srv path data =
          (Inr (Failure (Some (if es = [] then ''Cin7 reported failure'' else py_join ''; '' es))),
           [HttpPut path (wrap_payload data)])) \<and>
    (\<forall>item rest.
        json_body r = Inr (JList (JObj item # rest)) \<and> dict_get item ''success'' = JBool False \<and>
        \<not> truthy (dict_get_default item ''errors'' (JList [])) \<longrightarrow>
        cin7_put srv path data =
          (Inr (Failure (Some ''Cin7 reported failure'')), [HttpPut path (wrap_payload data)])) \<and>
    ((\<exists>msg. json_body r = Inl msg) \<or>
     (\<exists>j. json_body r = Inr j \<and> (\<forall>xs. j \<noteq> JList xs)) \<or>
     json_body r = Inr (JList []) \<or>
     (\<exists>item rest. json_body r = Inr (JList (JObj item # rest)) \<and>
                  dict_get item ''success'' \<noteq> JBool False) \<longrightarrow>
     cin7_put srv path data = (Inr Success, [HttpPut path (wrap_payload data)]))"
proof -
  note first = put_first_attempt [of srv r path data, OF assms]
  have a: "check_put_body (json_body r) =
             Inr (Failure (Some (if es = [] then ''Cin7 reported failure'' else py_join ''; '' es)))"
    if "json_body r = Inr (JList (JObj item # rest))" "dict_get item ''success'' = JBool False"
       "dict_get_default item ''errors'' (JList []) = JList (map JStr es)" for item rest es
    using that by (simp add: the_strings_map)
  have b: "check_put_body (json_body r) = Inr (Failure (Some ''Cin7 reported failure''))"
    if "json_body r = Inr (JList (JObj item # rest))" "dict_get item ''success'' = JBool False"
       "\<not> truthy (dict_get_default item ''errors'' (JList []))" for item rest
    using that by simp
  have c: "check_put_body (json_body r) = Inr Success"
    if h: "(\<exists>msg. json_body r = Inl msg) \<or>
        (\<exists>j. json_body r = Inr j \<and> (\<forall>xs. j \<noteq> JList xs)) \<or>
        json_body r = Inr (JList []) \<or>
        (\<exists>item rest. json_body r = Inr (JList (JObj item # rest)) \<and>
                  dict_get item ''success'' \<noteq> JBool False)"
  proof -
    consider msg where "json_body r = Inl msg"
      | j where "json_body r = Inr j" "\<forall>xs. j \<noteq> JList xs"
      | "json_body r = Inr (JList [])"
      | item rest where "json_body r = Inr (JList (JObj item # rest))"
                        "dict_get item ''success'' \<noteq> JBool False"
      using h by blast
    then show ?thesis
    proof cases
      case 1 then show ?thesis by simp
    next
      case 2 then show ?thesis by (cases j) auto
    next
      case 3 then show ?thesis by simp
    next
      case 4 then show ?thesis by simp
    qed
  qed
  show ?thesis
  proof (intro conjI allI impI)
    fix item rest es
    assume h: "json_body r = Inr (JList (JObj item # rest)) \<and> dict_get item ''success'' = JBool False \<and>
        dict_get_default item ''errors'' (JList []) = JList (map JStr es)"
    have "check_put_body (json_body r) =
            Inr (Failure (Some (if es = [] then ''Cin7 reported failure'' else py_join ''; '' es)))"
      by (rule a [of item rest es]) (use h in simp_all)
    then show "cin7_put srv path data =
          (Inr (Failure (Some (if es = [] then ''Cin7 reported failure'' else py_join ''; '' es))),
           [HttpPut path (wrap_payload data)])"
      by (simp add: first)
  next
    fix item rest
    assume h: "json_body r = Inr (JList (JObj item # rest)) \<and> dict_get item ''success'' = JBool False \<and>
        \<not> truthy (dict_get_default item ''errors'' (JList []))"
    have "check_put_body (json_body r) = Inr (Failure (Some ''Cin7 reported failure''))"
      by (rule b [of item rest]) (use h in simp_all)
    then show "cin7_put srv path data =
          (Inr (Failure (Some ''Cin7 reported failure'')), [HttpPut path (wrap_payload data)])"
      by (simp add: first)
  next
    assume "(\<exists>msg. json_body r = Inl msg) \<or>
     (\<exists>j. json_body r = Inr j \<and> (\<forall>xs. j \<noteq> JList xs)) \<or>
     json_body r = Inr (JList []) \<or>
     (\<exists>item rest. json_body r = Inr (JList (JObj item # rest)) \<and>
                  dict_get item ''success'' \<noteq> JBool False)"
    then have "check_put_body (json_body r) = Inr Success"
      by (rule c)
    then show "cin7_put srv path data = (Inr Success, [HttpPut path (wrap_payload data)])"
      by (simp add: first)
  qed
qed
lemmas put_eval = cin7_put_def cin7_put_loop.simps API_MAX_RETRIES_def backoff_def
  API_RETRY_DELAY_def rate_limit_sleep_def http_error_text_def str_opt_def str_int_def
  str_nat.simps digit_char_def dict_simps

theorem put_body_inspection_witness:
  "cin7_put ok_with_failure_marker ''/SalesOrders'' (JObj [(''id'', JInt 7)]) =
     (Inr (Failure (Some ''Stage is locked; Order is void'')),
      [HttpPut ''/SalesOrders'' (JList [JObj [(''id'', JInt 7)]])]) \<and>
   cin7_put no_content ''/SalesOrders'' (JObj [(''id'', JInt 7)]) =
     (Inr Success, [HttpPut ''/SalesOrders'' (JList [JObj [(''id'', JInt 7)]])])"
proof -
  have 1: "ok_with_failure_marker 0 =
     Inr (Response 200 ''...''
            (Inr (JList [JObj [(''success'', JBool False),
                               (''errors'', JList [JStr ''Stage is locked'', JStr ''Order is void''])]])))"
    by (simp add: ok_with_failure_marker_def)
  have 2: "no_content 0 = Inr (Response 204 [] (Inl ''Expecting value''))"
    by (simp add: no_content_def)
  have s: "status_code (Response 200 x y) \<in> {200, 201, 204}"
          "status_code (Response 204 x y) \<in> {200, 201, 204}" for x y
    by simp_all
  note t1 = put_body_inspection [of ok_with_failure_marker _ "''/SalesOrders''" "JObj [(''id'', JInt 7)]",
                               OF 1 s(1)]
  note t2 = put_body_inspection [of no_content _ "''/SalesOrders''" "JObj [(''id'', JInt 7)]",
                               OF 2 s(2)]
  have A: "cin7_put ok_with_failure_marker ''/SalesOrders'' (JObj [(''id'', JInt 7)]) =
     (Inr (Failure (Some (if [''Stage is locked'', ''Order is void''] = [] then ''Cin7 reported failure''
                          else py_join ''; '' [''Stage is locked'', ''Order is void'']))),
      [HttpPut ''/SalesOrders'' (wrap_payload (JObj [(''id'', JInt 7)]))])"
    by (rule t1 [THEN conjunct1, rule_format,
                 of "[(''success'', JBool False),
                      (''errors'', JList [JStr ''Stage is locked'', JStr ''Order is void''])]" "[]"])
       (simp add: dict_simps)
  have B: "cin7_put no_content ''/SalesOrders'' (JObj [(''id'', JInt 7)]) =
     (Inr Success, [HttpPut ''/SalesOrders'' (wrap_payload (JObj [(''id'', JInt 7)]))])"
    by (rule t2 [THEN conjunct2, THEN conjunct2, rule_format]) simp
  show ?thesis using A B by simp
qed

theorem put_2xx_counterexample:
  "200 \<le> status_code (Response 202 ''Accepted'' (Inl ''Expecting value'')) \<and>
   status_code (Response 202 ''Accepted'' (Inl ''Expecting value'')) < 300 \<and>
   cin7_put accepted_without_json ''/SalesOrders'' (JObj [(''id'', JInt 7)]) =
     (Inr (Failure (Some ''HTTP 202: Accepted'')),
      [HttpPut ''/SalesOrders'' (JList [JObj [(''id'', JInt 7)]]), Sleep 1,
       HttpPut ''/SalesOrders'' (JList [JObj [(''id'', JInt 7)]]), Sleep 2,
       HttpPut ''/SalesOrders'' (JList [JObj [(''id'', JInt 7)]]),
       LogError ''Cin7 PUT /SalesOrders failed: HTTP 202: Accepted'']) \<and>
   cin7_put ok_with_number_list ''/SalesOrders'' (JObj [(''id'', JInt 7)]) =
     (Inl AttributeError, [HttpPut ''/SalesOrders'' (JList [JObj [(''id'', JInt 7)]])])"
  by (simp add: accepted_without_json_def ok_with_number_list_def put_eval)

subsection \<open>The payload of a PUT\<close>

lemma sent_payloads_append: "sent_payloads (xs @ ys) = sent_payloads xs @ sent_payloads ys"
  by (induction xs rule: sent_payloads.induct) auto

lemma sent_payloads_backoff: "sent_payloads (backoff a) = []"
  by (simp add: backoff_def)

lemma put_loop_payloads:
  "\<exists>n. (attempt < API_MAX_RETRIES \<longrightarrow> 1 \<le> n) \<and> n \<le> API_MAX_RETRIES - attempt \<and>
       sent_payloads (snd (cin7_put_loop srv path payload attempt le tr)) =
       sent_payloads tr @ replicate n payload"
proof (induction srv path payload attempt le tr rule: cin7_put_loop.induct)
  case (1 srv path payload attempt last_error tr)
  show ?case
  proof (cases "attempt < API_MAX_RETRIES")
    case False
    then show ?thesis
      by (subst cin7_put_loop.simps) (simp add: sent_payloads_append)
  next
    case True
    show ?thesis
    proof (cases "put_attempt (srv attempt)")
      case (Return r)
      have "sent_payloads (snd (cin7_put_loop srv path payload attempt last_error tr)) =
            sent_payloads tr @ replicate 1 payload"
        using True Return by (subst cin7_put_loop.simps) (simp add: sent_payloads_append)
      then show ?thesis using True by (intro exI [of _ 1]) simp
    next
      case RateLimited
      from "1.IH"(1) [OF True RateLimited] obtain n where
        n: "n \<le> API_MAX_RETRIES - Suc attempt"
           "sent_payloads (snd (cin7_put_loop srv path payload (Suc attempt) last_error
               (tr @ [HttpPut path payload, rate_limit_sleep attempt]))) =
            sent_payloads (tr @ [HttpPut path payload, rate_limit_sleep attempt]) @ replicate n payload"
        by blast
      have "sent_payloads (snd (cin7_put_loop srv path payload attempt last_error tr)) =
            sent_payloads tr @ replicate (Suc n) payload"
        using True RateLimited n(2)
        by (subst cin7_put_loop.simps)
           (simp add: sent_payloads_append rate_limit_sleep_def replicate_append_same)
      then show ?thesis using True n(1) by (intro exI [of _ "Suc n"]) simp
    next
      case (Failed e)
      from "1.IH"(2) [OF True Failed] obtain n where
        n: "n \<le> API_MAX_RETRIES - Suc attempt"
           "sent_payloads (snd (cin7_put_loop srv path payload (Suc attempt) (Some e)
               (tr @ HttpPut path payload # backoff attempt))) =
            sent_payloads (tr @ HttpPut path payload # backoff attempt) @ replicate n payload"
        by blast
      have "sent_payloads (snd (cin7_put_loop srv path payload attempt last_error tr)) =
            sent_payloads tr @ replicate (Suc n) payload"
        using True Failed n(2)
        by (subst cin7_put_loop.simps)
           (simp add: sent_payloads_append sent_payloads_backoff replicate_append_same)
      then show ?thesis using True n(1) by (intro exI [of _ "Suc n"]) simp
    qed
  qed
qed

lemma put_payloads:
  "\<exists>n. 1 \<le> n \<and> n \<le> API_MAX_RETRIES \<and>
       sent_payloads (snd (cin7_put srv path data)) = replicate n (wrap_payload data)"
  using put_loop_payloads [of 0 srv path "wrap_payload data" None "[]"]
  by (auto simp: cin7_put_def API_MAX_RETRIES_def)

lemma update_order_stage_trace:
  "new_stage \<in> set KICKPLATE_STAGES \<Longrightarrow>
   sent_payloads (snd (update_order_stage srv order_id new_stage)) =
   sent_payloads (snd (cin7_put srv ''/SalesOrders''
                        (JObj [(''id'', JInt order_id), (''stage'', JStr new_stage)])))"
  by (auto simp: update_order_stage_def sent_payloads_append
            split: prod.splits sum.splits put_result.splits)

text \<open>
  C9. Every request that \<^verbatim>\<open>cin7_put\<close> sends for an input that is a single object carries
  the one-element list wrapping that object, and at least one request is sent; an input
  that is already a list is sent as it is. For a stage transition to one of the four
  known stages the wrapped object has exactly the lower-cased keys \<^verbatim>\<open>id\<close> and \<^verbatim>\<open>stage\<close>,
  with the order id and the target stage. A target that is not a known stage fails at
  once and sends nothing.
\<close>

theorem put_payload_on_the_wire:
  "(\<exists>n. 1 \<le> n \<and> n \<le> API_MAX_RETRIES \<and>
        sent_payloads (snd (cin7_put srv path (JObj d))) = replicate n (JList [JObj d])) \<and>
   (\<exists>n. 1 \<le> n \<and> n \<le> API_MAX_RETRIES \<and>
        sent_payloads (snd (cin7_put srv path (JList xs))) = replicate n (JList xs)) \<and>
   (new_stage \<in> set KICKPLATE_STAGES \<longrightarrow>
      (\<exists>n. 1 \<le> n \<and> n \<le> API_MAX_RETRIES \<and>
           sent_payloads (snd (update_order_stage srv order_id new_stage)) =
           replicate n (JList [JObj [(''id'', JInt order_id), (''stage'', JStr new_stage)]]))) \<and>
   (new_stage \<notin> set KICKPLATE_STAGES \<longrightarrow>
      update_order_stage srv order_id new_stage =
        (Inr (Failure (Some (''Invalid stage: '' @ new_stage))), []))"
proof (intro conjI impI)
  show "\<exists>n. 1 \<le> n \<and> n \<le> API_MAX_RETRIES \<and>
        sent_payloads (snd (cin7_put srv path (JObj d))) = replicate n (JList [JObj d])"
    using put_payloads [of srv path "JObj d"] by simp
  show "\<exists>n. 1 \<le> n \<and> n \<le> API_MAX_RETRIES \<and>
        sent_payloads (snd (cin7_put srv path (JList xs))) = replicate n (JList xs)"
    using put_payloads [of srv path "JList xs"] by simp
  show "\<exists>n. 1 \<le> n \<and> n \<le> API_MAX_RETRIES \<and>
           sent_payloads (snd (update_order_stage srv order_id new_stage)) =
           replicate n (JList [JObj [(''id'', JInt order_id), (''stage'', JStr new_stage)]])"
    if "new_stage \<in> set KICKPLATE_STAGES"
    using put_payloads [of srv "''/SalesOrders''"
                           "JObj [(''id'', JInt order_id), (''stage'', JStr new_stage)]"]
    by (simp add: update_order_stage_trace [OF that])
  show "update_order_stage srv order_id new_stage =
        (Inr (Failure (Some (''Invalid stage: '' @ new_stage))), [])"
    if "new_stage \<notin> set KICKPLATE_STAGES"
    using that by (simp add: update_order_stage_def)
qed
theorem put_payload_on_the_wire_witness:
  "''Kickplate - Processing'' \<in> set KICKPLATE_STAGES \<and>
   sent_payloads (snd (update_order_stage always_ok 42 ''Kickplate - Processing'')) =
     [JList [JObj [(''id'', JInt 42), (''stage'', JStr ''Kickplate - Processing'')]]] \<and>
   map fst [(''id'', JInt 42), (''stage'', JStr ''Kickplate - Processing'')] = [''id'', ''stage''] \<and>
   ''Not A Known Stage'' \<notin> set KICKPLATE_STAGES \<and>
   update_order_stage always_ok 42 ''Not A Known Stage'' =
     (Inr (Failure (Some ''Invalid stage: Not A Known Stage'')), [])"
proof -
  have k: "''Kickplate - Processing'' \<in> set KICKPLATE_STAGES"
          "''Not A Known Stage'' \<notin> set KICKPLATE_STAGES"
    by (simp_all add: KICKPLATE_STAGES_def)
  have e: "sent_payloads (snd (update_order_stage always_ok 42 ''Kickplate - Processing'')) =
     [JList [JObj [(''id'', JInt 42), (''stage'', JStr ''Kickplate - Processing'')]]]"
    using k(1)
    by (simp add: update_order_stage_def cin7_put_def cin7_put_loop.simps API_MAX_RETRIES_def
          always_ok_def str_int_def str_nat.simps digit_char_def)
  show ?thesis
    using put_payload_on_the_wire [of always_ok "''/SalesOrders''" "[]" "[]" "''Kickplate - Processing''" 42]
          put_payload_on_the_wire [of always_ok "''/SalesOrders''" "[]" "[]" "''Not A Known Stage''" 42]
          k e
    by simp
qed

subsection \<open>Pagination\<close>

lemma page_of_params: "page_of (page_params p) = JInt (int p)"
  by (simp add: page_of_def page_params_def dict_simps)

lemma rows_of_params: "rows_of (page_params p) = JInt 250"
  by (simp add: rows_of_def page_params_def dict_simps)

lemma fetch_pages_stop:
  assumes "p \<le> 100" "page_stops (get (page_params p))"
  shows "fetch_pages get p acc calls =
         (acc @ page_records (get (page_params p)), calls @ [page_params p])"
  using assms
  by (subst fetch_pages.simps)
     (auto simp: page_stops_def page_records_def Let_def split: option.splits)

lemma fetch_pages_continue:
  assumes "p \<le> 100" "\<not> page_stops (get (page_params p))"
  shows "fetch_pages get p acc calls =
         fetch_pages get (Suc p) (acc @ page_records (get (page_params p))) (calls @ [page_params p])"
  using assms
  by (subst fetch_pages.simps)
     (auto simp: page_stops_def page_records_def Let_def split: option.splits)

lemma fetch_pages_beyond:
  "100 < p \<Longrightarrow> fetch_pages get p acc calls = (acc, calls)"
  by (subst fetch_pages.simps) simp

lemma fetch_pages_from:
  "p \<le> 100 \<Longrightarrow>
   \<exists>k. p \<le> k \<and> k \<le> 100 \<and>
       (\<forall>j. p \<le> j \<and> j < k \<longrightarrow> \<not> page_stops (get (page_params j))) \<and>
       (k = 100 \<or> page_stops (get (page_params k))) \<and>
       fetch_pages get p acc calls =
         (acc @ concat (map (\<lambda>j. page_records (get (page_params j))) [p..<Suc k]),
          calls @ map page_params [p..<Suc k])"
proof (induction "100 - p" arbitrary: p acc calls)
  case 0
  then have p: "p = 100" by simp
  show ?case
  proof (cases "page_stops (get (page_params p))")
    case True
    then show ?thesis
      using p fetch_pages_stop [of p get acc calls] by (intro exI [of _ 100]) auto
  next
    case False
    then show ?thesis
      using p fetch_pages_continue [of p get acc calls]
        fetch_pages_beyond [of "Suc p" get]
      by (intro exI [of _ 100]) auto
  qed
next
  case (Suc n)
  then have p: "p < 100" by simp
  show ?case
  proof (cases "page_stops (get (page_params p))")
    case True
    then show ?thesis
      using p fetch_pages_stop [of p get acc calls] by (intro exI [of _ p]) auto
  next
    case False
    have "n = 100 - Suc p" "Suc p \<le> 100" using Suc.hyps(2) p by simp_all
    from Suc.hyps(1) [OF this, of "acc @ page_records (get (page_params p))" "calls @ [page_params p]"]
    obtain k where k: "Suc p \<le> k" "k \<le> 100"
      "\<forall>j. Suc p \<le> j \<and> j < k \<longrightarrow> \<not> page_stops (get (page_params j))"
      "k = 100 \<or> page_stops (get (page_params k))"
      "fetch_pages get (Suc p) (acc @ page_records (get (page_params p))) (calls @ [page_params p]) =
         ((acc @ page_records (get (page_params p))) @
            concat (map (\<lambda>j. page_records (get (page_params j))) [Suc p..<Suc k]),
          (calls @ [page_params p]) @ map page_params [Suc p..<Suc k])"
      by blast
    have up: "[p..<Suc k] = p # [Suc p..<Suc k]" using k(1) by (simp add: upt_rec)
    have all: "\<forall>j. p \<le> j \<and> j < k \<longrightarrow> \<not> page_stops (get (page_params j))"
      using k(3) False by (metis Suc_leI le_neq_implies_less)
    show ?thesis
      using k(1,2,4) all fetch_pages_continue [of p get acc calls] p False k(5) up
      by (intro exI [of _ k]) simp
  qed
qed

text \<open>
  C3. The aggregator calls for the pages 1, 2, ..., \<open>k\<close> in this order, each with
  \<^verbatim>\<open>rows\<close> = 250, and for no other page, where \<open>k\<close> is the first page at which a stop
  condition holds: the call failed, the page has no records, the page has fewer than 250
  records, or \<open>k\<close> is page 100. No page before \<open>k\<close> meets a stop condition. The result is
  the records of the pages 1 to \<open>k\<close> in order; a failed call contributes none, so what was
  collected before a failure is returned. A response that is neither a list nor an object
  counts as a page without records.
\<close>

theorem pagination_stops:
  "\<exists>k. 1 \<le> k \<and> k \<le> 100 \<and>
       snd (fetch_pages get 1 [] []) = map page_params [1..<Suc k] \<and>
       map page_of (snd (fetch_pages get 1 [] [])) = map (\<lambda>j. JInt (int j)) [1..<Suc k] \<and>
       (\<forall>c \<in> set (snd (fetch_pages get 1 [] [])). rows_of c = JInt 250) \<and>
       (\<forall>j. 1 \<le> j \<and> j < k \<longrightarrow> \<not> page_stops (get (page_params j))) \<and>
       (k = 100 \<or> page_stops (get (page_params k))) \<and>
       fst (fetch_pages get 1 [] []) =
         concat (map (\<lambda>j. page_records (get (page_params j))) [1..<Suc k])"
proof -
  have "1 \<le> (100::nat)" by simp
  from fetch_pages_from [OF this, of get "[]" "[]"]
  obtain k where k: "1 \<le> k" "k \<le> 100"
      "\<forall>j. 1 \<le> j \<and> j < k \<longrightarrow> \<not> page_stops (get (page_params j))"
      "k = 100 \<or> page_stops (get (page_params k))"
      "fetch_pages get 1 [] [] =
         (concat (map (\<lambda>j. page_records (get (page_params j))) [1..<Suc k]),
          map page_params [1..<Suc k])"
    unfolding append_Nil by blast
  show ?thesis
    using k by (intro exI [of _ k]) (simp add: comp_def page_of_params rows_of_params)
qed
lemma stop_page_unique:
  assumes "\<forall>j. 1 \<le> j \<and> j < k \<longrightarrow> \<not> page_stops (get (page_params j))"
    and "k = 100 \<or> page_stops (get (page_params k))"
    and "1 \<le> k" "k \<le> 100"
    and "\<forall>j. 1 \<le> j \<and> j < m \<longrightarrow> \<not> page_stops (get (page_params j))"
    and "page_stops (get (page_params m))" "1 \<le> m" "m \<le> 100"
  shows "k = m"
proof (rule ccontr)
  assume "k \<noteq> m"
  then consider "k < m" | "m < k" by linarith
  then show False
  proof cases
    case 1
    then have "\<not> page_stops (get (page_params k))" using assms(3,5) by blast
    moreover have "k \<noteq> 100" using 1 assms(8) by simp
    ultimately show False using assms(2) by blast
  next
    case 2
    then show False using assms(1,6,7) by blast
  qed
qed

theorem pagination_stops_witness:
  "fetch_pages full_page_then_failure 1 [] [] =
     (replicate 250 sample_record, [page_params 1, page_params 2]) \<and>
   fetch_pages short_second_page 1 [] [] =
     (replicate 250 sample_record @ replicate 100 sample_record, [page_params 1, page_params 2])"
proof -
  have a: "\<not> page_stops (full_page_then_failure (page_params 1))"
          "page_stops (full_page_then_failure (page_params 2))"
          "page_records (full_page_then_failure (page_params 1)) = replicate 250 sample_record"
          "page_records (full_page_then_failure (page_params 2)) = []"
    by (simp_all add: page_stops_def full_page_then_failure_def page_of_params page_records_def)
  have b: "\<not> page_stops (short_second_page (page_params 1))"
          "page_stops (short_second_page (page_params 2))"
          "page_records (short_second_page (page_params 1)) = replicate 250 sample_record"
          "page_records (short_second_page (page_params 2)) = replicate 100 sample_record"
    by (simp_all add: page_stops_def short_second_page_def page_of_params page_records_def dict_simps)
  have two: "[1..<Suc 2] = [1, 2]" by (simp add: upt_rec)
  have below: "\<forall>j. 1 \<le> j \<and> j < 2 \<longrightarrow> \<not> page_stops (get (page_params j))"
    if "\<not> page_stops (get (page_params 1))" for get
    using that by (metis One_nat_def Suc_1 le_antisym less_Suc_eq_le)
  obtain k where k: "1 \<le> k" "k \<le> 100"
      "snd (fetch_pages full_page_then_failure 1 [] []) = map page_params [1..<Suc k]"
      "\<forall>j. 1 \<le> j \<and> j < k \<longrightarrow> \<not> page_stops (full_page_then_failure (page_params j))"
      "k = 100 \<or> page_stops (full_page_then_failure (page_params k))"
      "fst (fetch_pages full_page_then_failure 1 [] []) =
         concat (map (\<lambda>j. page_records (full_page_then_failure (page_params j))) [1..<Suc k])"
    using pagination_stops [of full_page_then_failure] by blast
  have "k = 2"
    using stop_page_unique [OF k(4,5,1,2) below [of full_page_then_failure, OF a(1)] a(2)] by simp
  then have A: "fetch_pages full_page_then_failure 1 [] [] =
     (replicate 250 sample_record, [page_params 1, page_params 2])"
    using k(3,6) a two by (simp add: prod_eq_iff)
  obtain k' where k': "1 \<le> k'" "k' \<le> 100"
      "snd (fetch_pages short_second_page 1 [] []) = map page_params [1..<Suc k']"
      "\<forall>j. 1 \<le> j \<and> j < k' \<longrightarrow> \<not> page_stops (short_second_page (page_params j))"
      "k' = 100 \<or> page_stops (short_second_page (page_params k'))"
      "fst (fetch_pages short_second_page 1 [] []) =
         concat (map (\<lambda>j. page_records (short_second_page (page_params j))) [1..<Suc k'])"
    using pagination_stops [of short_second_page] by blast
  have "k' = 2"
    using stop_page_unique [OF k'(4,5,1,2) below [of short_second_page, OF b(1)] b(2)] by simp
  then have B: "fetch_pages short_second_page 1 [] [] =
     (replicate 250 sample_record @ replicate 100 sample_record, [page_params 1, page_params 2])"
    using k'(3,6) b two by (simp add: prod_eq_iff)
  show ?thesis using A B by simp
qed

subsection \<open>Quantity total\<close>




lemma gf_nonempty: "name \<noteq> [] \<Longrightarrow> \<exists>v. gf d name = Inr v"
  by (cases name) (auto simp: gf_def lower_first_def Let_def)





subsection \<open>The cards of the board\<close>

lemma process_order_Some:
  assumes "process_order sf today r = Inr (Some j)"
  shows "in_scope r \<and> (\<exists>d. r = JObj d \<and> \<not> is_void d \<and> raw_stage d = JStr (stage j)) \<and>
         prefix KICKPLATE_STAGE_PREFIX (stage j)"
proof -
  obtain d where d: "r = JObj d" using assms by (cases r) (auto simp: process_order_def)
  obtain v where v: "gf d ''Stage'' = Inr v" using gf_nonempty [of "''Stage''" d] by auto
  show ?thesis
    using assms unfolding d
    by (auto simp: process_order_def in_scope_def raw_stage_def v bind_err_def Let_def
             split: if_splits json.splits sum.splits)
qed

lemma process_order_None:
  assumes "process_order sf today r = Inr None"
  shows "\<not> in_scope r"
proof (cases r)
  case (JObj d)
  obtain v where v: "gf d ''Stage'' = Inr v" using gf_nonempty [of "''Stage''" d] by auto
  show ?thesis
    using assms unfolding JObj
    by (auto simp: process_order_def in_scope_def raw_stage_def v bind_err_def Let_def
             split: if_splits json.splits sum.splits)
qed (auto simp: in_scope_def)

lemma process_order_void: "is_void d \<Longrightarrow> process_order sf today (JObj d) = Inr None"
  by (simp add: process_order_def)

lemma process_orders_acc:
  "process_orders sf today raw acc = Inr res \<Longrightarrow>
   \<exists>js. res = acc @ js \<and>
        list_all2 (\<lambda>r j. process_order sf today r = Inr (Some j)) (filter in_scope raw) js"
proof (induction raw arbitrary: acc)
  case Nil
  then show ?case by simp
next
  case (Cons r raw)
  show ?case
  proof (cases "process_order sf today r")
    case (Inl e)
    then show ?thesis using Cons.prems by simp
  next
    case (Inr x)
    show ?thesis
    proof (cases x)
      case None
      then have "\<not> in_scope r" using Inr process_order_None by blast
      moreover have "process_orders sf today raw acc = Inr res"
        using Cons.prems Inr None by simp
      ultimately show ?thesis using Cons.IH by simp
    next
      case (Some j)
      then have s: "in_scope r" using Inr process_order_Some by blast
      have "process_orders sf today raw (acc @ [j]) = Inr res"
        using Cons.prems Inr Some by simp
      from Cons.IH [OF this] obtain js where
        js: "res = (acc @ [j]) @ js"
            "list_all2 (\<lambda>r j. process_order sf today r = Inr (Some j)) (filter in_scope raw) js"
        by blast
      show ?thesis
        using js s Inr Some by (intro exI [of _ "j # js"]) simp
    qed
  qed
qed

lemma group_order_map:
  "group_order (map (\<lambda>s. (s, acc s)) S) order =
   map (\<lambda>s. (s, if s = stage order then acc s @ [order] else acc s)) S"
proof (cases "stage order \<in> set S")
  case True
  then show ?thesis by (simp add: group_order_def comp_def image_iff)
next
  case False
  then have "map (\<lambda>s. (s, if s = stage order then acc s @ [order] else acc s)) S =
             map (\<lambda>s. (s, acc s)) S"
    by (intro map_cong) auto
  then show ?thesis using False by (simp add: group_order_def comp_def image_iff)
qed

lemma foldl_group_order:
  "foldl group_order (map (\<lambda>s. (s, acc s)) S) orders =
   map (\<lambda>s. (s, acc s @ filter (\<lambda>j. stage j = s) orders)) S"
proof (induction orders arbitrary: acc)
  case Nil
  then show ?case by simp
next
  case (Cons order orders)
  have "foldl group_order (map (\<lambda>s. (s, acc s)) S) (order # orders) =
        foldl group_order
          (map (\<lambda>s. (s, if s = stage order then acc s @ [order] else acc s)) S) orders"
    by (simp add: group_order_map)
  also have "\<dots> = map (\<lambda>s. (s, (if s = stage order then acc s @ [order] else acc s)
                                 @ filter (\<lambda>j. stage j = s) orders)) S"
    by (rule Cons.IH)
  also have "\<dots> = map (\<lambda>s. (s, acc s @ filter (\<lambda>j. stage j = s) (order # orders))) S"
    by (intro map_cong) auto
  finally show ?case .
qed

lemma group_orders_filter:
  "group_orders orders = map (\<lambda>s. (s, filter (\<lambda>j. stage j = s) orders)) KICKPLATE_STAGES"
  using foldl_group_order [of "\<lambda>s. []" KICKPLATE_STAGES orders]
  by (simp add: group_orders_def)

lemma count_partition:
  "distinct S \<Longrightarrow>
   sum_list (map (\<lambda>s. length (filter (\<lambda>j. f j = s) xs)) S) = length (filter (\<lambda>j. f j \<in> set S) xs)"
proof (induction S)
  case Nil
  then show ?case by simp
next
  case (Cons s S)
  have "length (filter (\<lambda>j. f j \<in> set (s # S)) xs) =
        length (filter (\<lambda>j. f j = s) xs) + length (filter (\<lambda>j. f j \<in> set S) xs)"
    using Cons.prems by (induction xs) auto
  then show ?case using Cons by simp
qed

lemma distinct_stages: "distinct KICKPLATE_STAGES"
  by (simp add: KICKPLATE_STAGES_def)

lemma list_all2_right:
  "list_all2 P xs ys \<Longrightarrow> y \<in> set ys \<Longrightarrow> \<exists>x \<in> set xs. P x y"
  by (induction rule: list_all2_induct) auto

lemma list_all2_left:
  "list_all2 P xs ys \<Longrightarrow> x \<in> set xs \<Longrightarrow> \<exists>y \<in> set ys. P x y"
  by (induction rule: list_all2_induct) auto

lemma filter_shorter:
  "(length (filter P xs) < length xs) = (\<exists>x \<in> set xs. \<not> P x)"
  by (induction xs) (auto simp: less_Suc_eq_le length_filter_le)

lemma api_jobs_Inr:
  assumes "api_jobs sf today get = Inr b"
  obtains orders where
    "fetch_kickplate_orders sf today get = Inr orders"
    "jobs b = map (\<lambda>s. (s, filter (\<lambda>j. stage j = s) orders)) KICKPLATE_STAGES"
    "totalCount b = length orders"
    "list_all2 (\<lambda>r j. process_order sf today r = Inr (Some j))
       (filter in_scope (fst (fetch_pages get 1 [] []))) orders"
proof -
  obtain orders where o: "fetch_kickplate_orders sf today get = Inr orders"
    using assms by (auto simp: api_jobs_def split: sum.splits)
  then have b: "b = \<lparr>jobs = group_orders orders, totalCount = length orders\<rparr>"
    using assms by (simp add: api_jobs_def)
  from o process_orders_acc [of sf today "fst (fetch_pages get 1 [] [])" "[]" orders]
  have "list_all2 (\<lambda>r j. process_order sf today r = Inr (Some j))
       (filter in_scope (fst (fetch_pages get 1 [] []))) orders"
    by (auto simp: fetch_kickplate_orders_def)
  then show thesis
    using that [OF o] b by (simp add: group_orders_filter)
qed

text \<open>
  C8. When the board answer is produced, its groups are the four known kickplate stages
  and the group of a stage holds, in order, exactly the processed orders with that
  stage. So every card in a group has the stage of its group, one of the four known
  stages, and comes from a fetched record that is not void and whose stage it carries;
  a processed order with any other stage is in no group. A void record is skipped
  before anything else is read from it.
\<close>

theorem board_cards_known_stage_non_void:
  assumes "api_jobs sf today get = Inr b"
  shows "map fst (jobs b) = KICKPLATE_STAGES \<and>
         (\<exists>orders. fetch_kickplate_orders sf today get = Inr orders \<and>
            jobs b = map (\<lambda>s. (s, filter (\<lambda>j. stage j = s) orders)) KICKPLATE_STAGES) \<and>
         (\<forall>(s, js) \<in> set (jobs b). \<forall>j \<in> set js.
            stage j = s \<and> stage j \<in> set KICKPLATE_STAGES \<and>
            (\<exists>d. JObj d \<in> set (fst (fetch_pages get 1 [] [])) \<and> \<not> is_void d \<and>
                 raw_stage d = JStr (stage j) \<and>
                 process_order sf today (JObj d) = Inr (Some j))) \<and>
         (\<forall>d. is_void d \<longrightarrow> process_order sf today (JObj d) = Inr None)"
proof -
  from assms obtain orders where o:
    "fetch_kickplate_orders sf today get = Inr orders"
    "jobs b = map (\<lambda>s. (s, filter (\<lambda>j. stage j = s) orders)) KICKPLATE_STAGES"
    "list_all2 (\<lambda>r j. process_order sf today r = Inr (Some j))
       (filter in_scope (fst (fetch_pages get 1 [] []))) orders"
    by (rule api_jobs_Inr)
  have src: "\<exists>d. JObj d \<in> set (fst (fetch_pages get 1 [] [])) \<and> \<not> is_void d \<and>
                 raw_stage d = JStr (stage j) \<and>
                 process_order sf today (JObj d) = Inr (Some j)"
    if "j \<in> set orders" for j
  proof -
    from list_all2_right [OF o(3) that]
    obtain r where r: "r \<in> set (filter in_scope (fst (fetch_pages get 1 [] [])))"
        "process_order sf today r = Inr (Some j)"
      by blast
    from process_order_Some [OF r(2)] obtain d where
      "r = JObj d" "\<not> is_void d" "raw_stage d = JStr (stage j)" by blast
    then show ?thesis using r by auto
  qed
  have "map fst (jobs b) = KICKPLATE_STAGES"
    by (simp add: o(2) comp_def)
  moreover have "\<forall>(s, js) \<in> set (jobs b). \<forall>j \<in> set js.
            stage j = s \<and> stage j \<in> set KICKPLATE_STAGES \<and>
            (\<exists>d. JObj d \<in> set (fst (fetch_pages get 1 [] [])) \<and> \<not> is_void d \<and>
                 raw_stage d = JStr (stage j) \<and>
                 process_order sf today (JObj d) = Inr (Some j))"
    using src by (auto simp: o(2))
  ultimately show ?thesis
    using o(1,2) process_order_void by blast
qed
lemma board_page_raw:
  "fst (fetch_pages board_page 1 [] []) = [new_order, void_order, archived_order, dispatched_order]"
proof -
  have "page_stops (board_page (page_params 1))"
    by (simp add: page_stops_def page_records_def board_page_def page_of_params)
  then have "fetch_pages board_page 1 [] [] =
             ([] @ page_records (board_page (page_params 1)), [] @ [page_params 1])"
    by (intro fetch_pages_stop) simp_all
  then show ?thesis
    by (simp add: page_records_def board_page_def page_of_params)
qed

lemma board_page_orders:
  "fetch_kickplate_orders str_float_sample today_sample board_page =
     Inr [card 1 ''Kickplate - New'', card 3 ''Kickplate - Archived'']"
  unfolding fetch_kickplate_orders_def board_page_raw
  by (simp add: new_order_def void_order_def archived_order_def dispatched_order_def card_def
        process_order_def bind_err_def is_void_def py_or_def gf_def dict_simps lower_first_def
        lower_char_def KICKPLATE_STAGE_PREFIX_def line_items_of_def due_status_def py_trunc_def)

lemma board_page_answer:
  "api_jobs str_float_sample today_sample board_page =
     Inr \<lparr>jobs = [(''Kickplate - New'', [card 1 ''Kickplate - New'']),
                 (''Kickplate - Processing'', []),
                 (''Kickplate - Job Complete'', []),
                 (''Kickplate - To Collect'', [])],
          totalCount = 2\<rparr>"
  by (simp add: api_jobs_def board_page_orders group_orders_filter KICKPLATE_STAGES_def card_def)
theorem board_cards_known_stage_non_void_witness:
  "api_jobs str_float_sample today_sample board_page =
     Inr \<lparr>jobs = [(''Kickplate - New'', [card 1 ''Kickplate - New'']),
                 (''Kickplate - Processing'', []),
                 (''Kickplate - Job Complete'', []),
                 (''Kickplate - To Collect'', [])],
          totalCount = 2\<rparr> \<and>
   map fst [(''Kickplate - New'', [card 1 ''Kickplate - New'']),
            (''Kickplate - Processing'', []),
            (''Kickplate - Job Complete'', []),
            (''Kickplate - To Collect'', [])] = KICKPLATE_STAGES"
  using board_cards_known_stage_non_void [OF board_page_answer] board_page_answer
  by simp

text \<open>
  C10. When the board answer is produced, \<open>totalCount\<close> is the number of fetched records
  that are kept (not void, with a kickplate-prefixed stage). It is at least the sum of the
  sizes of the four groups, and strictly greater exactly when one of the kept records has a
  stage outside the four known stages.
\<close>

theorem total_count_counts_ungrouped:
  assumes "api_jobs sf today get = Inr b"
  shows "(let raw = fst (fetch_pages get 1 [] []);
              grouped = sum_list (map (\<lambda>(s, js). length js) (jobs b))
          in totalCount b = length (filter in_scope raw) \<and>
             grouped \<le> totalCount b \<and>
             (grouped < totalCount b \<longleftrightarrow>
                (\<exists>d stg. JObj d \<in> set raw \<and> in_scope (JObj d) \<and> raw_stage d = JStr stg \<and>
                         stg \<notin> set KICKPLATE_STAGES)))"
proof -
  let ?raw = "fst (fetch_pages get 1 [] [])"
  from assms obtain orders where o:
    "jobs b = map (\<lambda>s. (s, filter (\<lambda>j. stage j = s) orders)) KICKPLATE_STAGES"
    "totalCount b = length orders"
    "list_all2 (\<lambda>r j. process_order sf today r = Inr (Some j)) (filter in_scope ?raw) orders"
    by (rule api_jobs_Inr)
  have g: "sum_list (map (\<lambda>(s, js). length js) (jobs b)) =
           length (filter (\<lambda>j. stage j \<in> set KICKPLATE_STAGES) orders)"
    using count_partition [OF distinct_stages, of stage orders] by (simp add: o(1) comp_def)
  have len: "length orders = length (filter in_scope ?raw)"
    using o(3) by (simp add: list_all2_lengthD)
  have strict: "length (filter (\<lambda>j. stage j \<in> set KICKPLATE_STAGES) orders) < length orders
                \<longleftrightarrow> (\<exists>j \<in> set orders. stage j \<notin> set KICKPLATE_STAGES)"
    by (simp add: filter_shorter)
  have ex: "(\<exists>j \<in> set orders. stage j \<notin> set KICKPLATE_STAGES) \<longleftrightarrow>
            (\<exists>d stg. JObj d \<in> set ?raw \<and> in_scope (JObj d) \<and> raw_stage d = JStr stg \<and>
                         stg \<notin> set KICKPLATE_STAGES)"
  proof
    assume "\<exists>j \<in> set orders. stage j \<notin> set KICKPLATE_STAGES"
    then obtain j where j: "j \<in> set orders" "stage j \<notin> set KICKPLATE_STAGES" by blast
    from list_all2_right [OF o(3) j(1)]
    obtain r where r: "r \<in> set (filter in_scope ?raw)"
        "process_order sf today r = Inr (Some j)"
      by blast
    from process_order_Some [OF r(2)] obtain d where
      "r = JObj d" "raw_stage d = JStr (stage j)" by blast
    then show "\<exists>d stg. JObj d \<in> set ?raw \<and> in_scope (JObj d) \<and> raw_stage d = JStr stg \<and>
                         stg \<notin> set KICKPLATE_STAGES"
      using r(1) j(2) by auto
  next
    assume "\<exists>d stg. JObj d \<in> set ?raw \<and> in_scope (JObj d) \<and> raw_stage d = JStr stg \<and>
                         stg \<notin> set KICKPLATE_STAGES"
    then obtain d stg where d: "JObj d \<in> set (filter in_scope ?raw)" "raw_stage d = JStr stg"
        "stg \<notin> set KICKPLATE_STAGES" by auto
    from list_all2_left [OF o(3) d(1)]
    obtain j where j: "j \<in> set orders"
        "process_order sf today (JObj d) = Inr (Some j)"
      by blast
    from process_order_Some [OF j(2)] have "raw_stage d = JStr (stage j)" by auto
    then show "\<exists>j \<in> set orders. stage j \<notin> set KICKPLATE_STAGES"
      using d(2,3) j(1) by auto
  qed
  have 1: "totalCount b = length (filter in_scope ?raw)"
    using o(2) len by simp
  have 2: "sum_list (map (\<lambda>(s, js). length js) (jobs b)) \<le> totalCount b"
    unfolding g o(2) by simp
  have 3: "(sum_list (map (\<lambda>(s, js). length js) (jobs b)) < totalCount b) =
           (\<exists>d stg. JObj d \<in> set ?raw \<and> in_scope (JObj d) \<and> raw_stage d = JStr stg \<and>
                         stg \<notin> set KICKPLATE_STAGES)"
    unfolding g o(2) using strict ex by (rule trans)
  show ?thesis
    unfolding Let_def using 1 2 3 by (intro conjI)
qed
theorem total_count_counts_ungrouped_witness:
  "(case api_jobs str_float_sample today_sample board_page of
      Inr b \<Rightarrow> (totalCount b, sum_list (map (\<lambda>(s, js). length js) (jobs b)))
    | Inl e \<Rightarrow> (0, 0)) = (2, 1) \<and>
   length (filter in_scope (fst (fetch_pages board_page 1 [] []))) = 2"
  using total_count_counts_ungrouped [OF board_page_answer] board_page_answer
  by (simp add: Let_def)

subsection \<open>Round trip of the date formats\<close>

lemmas digit_eval = zfill_def str_nat.simps digit_char_def digit_val_def digit_of_def is_digit_def

lemma digit_char_cases:
  "digit_char k \<in> set ''0123456789''"
proof -
  have "k mod 10 \<in> set [0..<10]" by simp
  then show ?thesis
    unfolding digit_char_def by (simp add: upt_rec) (elim disjE; simp)
qed

lemma is_digit_digit_char [simp]: "is_digit (digit_char k)"
  using digit_char_cases [of k] by (auto simp: is_digit_def digit_of_def)

lemma digit_val_digit_char [simp]: "digit_val (digit_char k) = k mod 10"
proof -
  have "k mod 10 \<in> set [0..<10]" by simp
  then show ?thesis
    unfolding digit_char_def by (simp add: upt_rec) (elim disjE; simp add: digit_val_def digit_of_def)
qed

lemma digit_char_mod [simp]: "digit_char (k mod 10) = digit_char k"
  by (simp add: digit_char_def)

lemma literal_same [simp]: "literal c (c # r) = [(0, r)]"
  by simp

lemma lower_char_digit: "c \<in> set ''0123456789'' \<Longrightarrow> lower_char c = c"
  by simp (elim disjE; simp add: lower_char_def)

lemma lower_char_literal:
  "c \<in> set ''-T:./'' \<Longrightarrow> lower_char c \<in> set ''-t:./''"
  by simp (elim disjE; simp add: lower_char_def)

lemma literal_digit [simp]:
  assumes "c \<in> set ''-T:./''"
  shows "literal c (digit_char k # r) = []"
proof -
  have d: "digit_char k \<in> set ''0123456789''" by (rule digit_char_cases)
  then have l: "lower_char (digit_char k) = digit_char k" by (rule lower_char_digit)
  have "digit_char k \<notin> set ''-t:./''" "digit_char k \<notin> set ''-T:./''"
    using d by auto
  then have "digit_char k \<noteq> c" "digit_char k \<noteq> lower_char c"
    using assms lower_char_literal [OF assms] by metis+
  then show ?thesis by (simp add: l)
qed

lemma digit_char_not_Z [simp]: "digit_char k \<noteq> CHR ''Z''" "digit_char k \<noteq> CHR ''+''"
  using digit_char_cases [of k] by auto


lemma str_nat_nonempty [simp]: "str_nat n \<noteq> []"
  by (subst str_nat.simps) simp

lemma last_str_nat [simp]: "last (str_nat n) = digit_char n"
  by (subst str_nat.simps) simp

lemma str_nat_digits: "c \<in> set (str_nat n) \<Longrightarrow> is_digit c"
proof (induction n rule: str_nat.induct)
  case (1 n)
  show ?case
  proof (cases "n < 10")
    case True
    then show ?thesis using "1.prems" by (subst (asm) str_nat.simps) auto
  next
    case False
    then show ?thesis using "1.prems" "1.IH"
      by (subst (asm) str_nat.simps) auto
  qed
qed

lemma digits_to_nat_snoc: "digits_to_nat (s @ [c]) = 10 * digits_to_nat s + digit_val c"
  by (simp add: digits_to_nat_def)

lemma digits_to_nat_str_nat [simp]: "digits_to_nat (str_nat n) = n"
proof (induction n rule: str_nat.induct)
  case (1 n)
  show ?case
  proof (cases "n < 10")
    case True
    then show ?thesis by (subst str_nat.simps) (simp add: digits_to_nat_def)
  next
    case False
    then show ?thesis using "1.IH"
      by (subst str_nat.simps) (simp add: digits_to_nat_snoc)
  qed
qed

lemma digits_to_nat_zeros: "digits_to_nat (replicate k CHR ''0'' @ s) = digits_to_nat s"
  by (induction k) (simp_all add: digits_to_nat_def digit_val_def digit_of_def)

lemma digits_to_nat_zfill [simp]: "digits_to_nat (zfill w (str_nat n)) = n"
  by (simp add: zfill_def digits_to_nat_zeros)

lemma length_str_nat: "n < 10 ^ w \<Longrightarrow> 0 < w \<Longrightarrow> length (str_nat n) \<le> w"
proof (induction n arbitrary: w rule: str_nat.induct)
  case (1 n)
  show ?case
  proof (cases "n < 10")
    case True
    then show ?thesis using "1.prems" by (subst str_nat.simps) simp
  next
    case False
    obtain v where v: "w = Suc v" using "1.prems"(2) by (cases w) auto
    have "0 < v" using False "1.prems"(1) v by (cases v) auto
    moreover have "n div 10 < 10 ^ v" using "1.prems"(1) v by (simp add: less_mult_imp_div_less mult.commute)
    ultimately have "length (str_nat (n div 10)) \<le> v" using "1.IH" False by simp
    then show ?thesis using False v by (subst str_nat.simps) simp
  qed
qed

lemma length_zfill: "n < 10 ^ w \<Longrightarrow> 0 < w \<Longrightarrow> length (zfill w (str_nat n)) = w"
  using length_str_nat [of n w] by (simp add: zfill_def)

lemma zfill_digits: "c \<in> set (zfill w (str_nat n)) \<Longrightarrow> is_digit c"
proof -
  assume "c \<in> set (zfill w (str_nat n))"
  then consider "c = CHR ''0''" | "c \<in> set (str_nat n)"
    by (auto simp: zfill_def)
  then show ?thesis
  proof cases
    case 1
    then show ?thesis by (simp add: is_digit_def digit_of_def)
  next
    case 2
    then show ?thesis by (rule str_nat_digits)
  qed
qed

lemma zfill_nonempty [simp]: "zfill w (str_nat n) \<noteq> []"
  by (simp add: zfill_def)

lemma last_zfill [simp]: "last (zfill w (str_nat n)) = digit_char n"
  by (simp add: zfill_def)

lemma year_alts:
  assumes "y \<le> 9999"
  shows "match_directive DirY (zfill 4 (str_nat y) @ r) = [(y, r)]"
proof -
  have "length (zfill 4 (str_nat y)) = 4" using assms by (intro length_zfill) simp_all
  then obtain a b c d where s: "zfill 4 (str_nat y) = [a, b, c, d]"
    by (auto simp: length_Suc_conv numeral_eq_Suc)
  have "is_digit a" "is_digit b" "is_digit c" "is_digit d"
    using zfill_digits [of _ 4 y] unfolding s by simp_all
  moreover have "digits_to_nat [a, b, c, d] = y"
    using digits_to_nat_zfill [of 4 y] unfolding s .
  ultimately show ?thesis unfolding s by simp
qed

lemma fraction_head:
  assumes "us \<le> 999999"
  shows "\<exists>alts. match_directive Dirf (zfill 6 (str_nat us)) = (us, []) # alts"
proof -
  let ?s = "zfill 6 (str_nat us)"
  have len: "length ?s = 6" using assms by (intro length_zfill) simp_all
  have t6: "take 6 ?s = ?s" using len by simp
  have "\<forall>c \<in> set ?s. is_digit c" using zfill_digits by blast
  then have tw: "takeWhile is_digit ?s = ?s" by (simp add: takeWhile_eq_all_conv)
  have c6: "countdown 6 = 6 # countdown 5" by (simp add: numeral_eq_Suc)
  have "fraction ?s =
      map (\<lambda>n. (digits_to_nat (take 6 (take n ?s @ ''000000'')), drop n ?s)) (countdown 6)"
    unfolding fraction_def t6 tw len ..
  also have "\<dots> = (digits_to_nat (take 6 (take 6 ?s @ ''000000'')), drop 6 ?s) #
      map (\<lambda>n. (digits_to_nat (take 6 (take n ?s @ ''000000'')), drop n ?s)) (countdown 5)"
    unfolding c6 by simp
  also have "take 6 (take 6 ?s @ ''000000'') = ?s" unfolding t6 using len by simp
  also have "drop 6 ?s = []" using len by simp
  finally show ?thesis by simp
qed

lemma month_alts:
  assumes "1 \<le> n" "n \<le> 12"
  shows "match_directive Dirm (zfill 2 (str_nat n) @ r) =
         (n, r) # (if 10 \<le> n then [(n div 10, digit_char n # r)] else [])"
proof -
  have "n \<in> set [1..<13]" unfolding set_upt using assms by simp
  then show ?thesis
    by (simp add: upt_rec) (elim disjE; simp add: digit_eval)
qed

lemma month_alts_big:
  assumes "13 \<le> n" "n \<le> 31"
  shows "match_directive Dirm (zfill 2 (str_nat n) @ r) = [(n div 10, digit_char n # r)]"
proof -
  have "n \<in> set [13..<32]" unfolding set_upt using assms by simp
  then show ?thesis
    by (simp add: upt_rec) (elim disjE; simp add: digit_eval)
qed

lemma day_alts:
  assumes "1 \<le> n" "n \<le> 31"
  shows "match_directive Dird (zfill 2 (str_nat n) @ r) =
         (n, r) # (if 10 \<le> n then [(n div 10, digit_char n # r)] else [])"
proof -
  have "n \<in> set [1..<32]" unfolding set_upt using assms by simp
  then show ?thesis
    by (simp add: upt_rec) (elim disjE; simp add: digit_eval)
qed

lemma hour_alts:
  assumes "n \<le> 23"
  shows "match_directive DirH (zfill 2 (str_nat n) @ r) = [(n, r), (n div 10, digit_char n # r)]"
proof -
  have "n \<in> set [0..<24]" unfolding set_upt using assms by simp
  then show ?thesis
    by (simp add: upt_rec) (elim disjE; simp add: digit_eval)
qed

lemma minute_alts:
  assumes "n \<le> 59"
  shows "match_directive DirM (zfill 2 (str_nat n) @ r) = [(n, r), (n div 10, digit_char n # r)]"
proof -
  have "n \<in> set [0..<60]" unfolding set_upt using assms by simp
  then show ?thesis
    by (simp add: upt_rec) (elim disjE; simp add: digit_eval)
qed

lemma second_alts:
  assumes "n \<le> 59"
  shows "match_directive DirS (zfill 2 (str_nat n) @ r) = [(n, r), (n div 10, digit_char n # r)]"
proof -
  have "n \<in> set [0..<60]" unfolding set_upt using assms by simp
  then show ?thesis
    by (simp add: upt_rec) (elim disjE; simp add: digit_eval)
qed

lemma year_not_two_digits:
  assumes "n < 100" "\<not> is_digit c"
  shows "match_directive DirY (zfill 2 (str_nat n) @ c # r) = []"
proof -
  have "length (zfill 2 (str_nat n)) = 2" using assms(1) by (intro length_zfill) simp_all
  then obtain a b where s: "zfill 2 (str_nat n) = [a, b]"
    by (auto simp: length_Suc_conv numeral_eq_Suc)
  show ?thesis unfolding s using assms(2) by (cases r) simp_all
qed

lemma year_alts_nil: "y \<le> 9999 \<Longrightarrow> match_directive DirY (zfill 4 (str_nat y)) = [(y, [])]"
  using year_alts [of y "[]"] by (simp del: match_directive.simps)

lemma month_alts_nil:
  "1 \<le> n \<Longrightarrow> n \<le> 12 \<Longrightarrow>
   match_directive Dirm (zfill 2 (str_nat n)) =
     (n, []) # (if 10 \<le> n then [(n div 10, [digit_char n])] else [])"
  using month_alts [of n "[]"] by (simp del: match_directive.simps)

lemma day_alts_nil:
  "1 \<le> n \<Longrightarrow> n \<le> 31 \<Longrightarrow>
   match_directive Dird (zfill 2 (str_nat n)) =
     (n, []) # (if 10 \<le> n then [(n div 10, [digit_char n])] else [])"
  using day_alts [of n "[]"] by (simp del: match_directive.simps)

lemma second_alts_nil:
  "n \<le> 59 \<Longrightarrow>
   match_directive DirS (zfill 2 (str_nat n)) = [(n, []), (n div 10, [digit_char n])]"
  using second_alts [of n "[]"] by (simp del: match_directive.simps)

lemmas alts_nil = year_alts_nil month_alts_nil day_alts_nil second_alts_nil

lemmas alts = year_alts month_alts day_alts hour_alts minute_alts second_alts month_alts_big
  year_not_two_digits alts_nil

lemma match_lit: "match_directive (Lit c) s = literal c s"
  by simp

lemma literal_nil: "literal c [] = []"
  by simp

lemmas match_eval = alts match_lit literal_nil directive_of_def
  strptime_def default_datetime_def

lemma days_in_month_ge: "28 \<le> days_in_month y m"
  by (simp add: days_in_month_def)

lemma days_in_month_le: "days_in_month y m \<le> 31"
  by (simp add: days_in_month_def)

lemma not_digit_literals [simp]:
  "\<not> is_digit CHR ''/''" "\<not> is_digit CHR ''-''" "\<not> is_digit CHR ''T''"
  "\<not> is_digit CHR '':''" "\<not> is_digit CHR ''.''"
  by (simp_all add: is_digit_def digit_of_def)

lemma strptime_seconds:
  assumes "valid_datetime dt" "microsecond dt = 0"
  shows "strptime (strftime dt ''%Y-%m-%dT%H:%M:%S'') ''%Y-%m-%dT%H:%M:%S'' = Some dt"
proof (cases dt)
  case (fields y m d h mi s us)
  have b: "1 \<le> y" "y \<le> 9999" "1 \<le> m" "m \<le> 12" "1 \<le> d" "d \<le> 31" "h \<le> 23" "mi \<le> 59"
    "s \<le> 59" "d \<le> days_in_month y m" "us = 0"
    using assms days_in_month_le [of y m] unfolding fields
    by (simp_all add: valid_datetime_def)
  show ?thesis
    unfolding fields using b
    by (simp add: match_eval valid_datetime_def del: match_directive.simps(1-7) literal.simps(1))
qed


lemma strptime_fraction:
  assumes "valid_datetime dt"
  shows "strptime (strftime dt ''%Y-%m-%dT%H:%M:%S.%f'') ''%Y-%m-%dT%H:%M:%S'' = None"
    and "strptime (strftime dt ''%Y-%m-%dT%H:%M:%S.%f'') ''%Y-%m-%dT%H:%M:%S.%f'' = Some dt"
proof -
  obtain y m d h mi s us where fields:
    "dt = \<lparr>year = y, month = m, day = d, hour = h, minute = mi, second = s, microsecond = us\<rparr>"
    by (cases dt) auto
  have b: "1 \<le> y" "y \<le> 9999" "1 \<le> m" "m \<le> 12" "1 \<le> d" "d \<le> 31" "h \<le> 23" "mi \<le> 59"
    "s \<le> 59" "d \<le> days_in_month y m" "us \<le> 999999"
    using assms days_in_month_le [of y m] unfolding fields
    by (simp_all add: valid_datetime_def)
  obtain fs where f: "match_directive Dirf (zfill 6 (str_nat us)) = (us, []) # fs"
    using fraction_head [OF b(11)] by blast
  show "strptime (strftime dt ''%Y-%m-%dT%H:%M:%S.%f'') ''%Y-%m-%dT%H:%M:%S'' = None"
    unfolding fields using b
    by (simp add: match_eval valid_datetime_def del: match_directive.simps(1-7) literal.simps(1))
  show "strptime (strftime dt ''%Y-%m-%dT%H:%M:%S.%f'') ''%Y-%m-%dT%H:%M:%S.%f'' = Some dt"
    unfolding fields using b
    by (simp add: match_eval f valid_datetime_def del: match_directive.simps(1-7) literal.simps(1))
qed

lemma strptime_date:
  assumes "valid_datetime dt" "hour dt = 0" "minute dt = 0" "second dt = 0" "microsecond dt = 0"
  shows "strptime (strftime dt ''%Y-%m-%d'') ''%Y-%m-%dT%H:%M:%S'' = None"
    and "strptime (strftime dt ''%Y-%m-%d'') ''%Y-%m-%dT%H:%M:%S.%f'' = None"
    and "strptime (strftime dt ''%Y-%m-%d'') ''%Y-%m-%d'' = Some dt"
proof -
  obtain y m d h mi s us where fields:
    "dt = \<lparr>year = y, month = m, day = d, hour = h, minute = mi, second = s, microsecond = us\<rparr>"
    by (cases dt) auto
  have b: "1 \<le> y" "y \<le> 9999" "1 \<le> m" "m \<le> 12" "1 \<le> d" "d \<le> 31" "h = 0" "mi = 0"
    "s = 0" "d \<le> days_in_month y m" "us = 0"
    using assms days_in_month_le [of y m] unfolding fields
    by (simp_all add: valid_datetime_def)
  show "strptime (strftime dt ''%Y-%m-%d'') ''%Y-%m-%dT%H:%M:%S'' = None"
    unfolding fields using b
    by (simp add: match_eval valid_datetime_def del: match_directive.simps(1-7) literal.simps(1))
  show "strptime (strftime dt ''%Y-%m-%d'') ''%Y-%m-%dT%H:%M:%S.%f'' = None"
    unfolding fields using b
    by (simp add: match_eval valid_datetime_def del: match_directive.simps(1-7) literal.simps(1))
  show "strptime (strftime dt ''%Y-%m-%d'') ''%Y-%m-%d'' = Some dt"
    unfolding fields using b
    by (simp add: match_eval valid_datetime_def del: match_directive.simps(1-7) literal.simps(1))
qed


lemma strptime_day_first:
  assumes "valid_datetime dt" "hour dt = 0" "minute dt = 0" "second dt = 0" "microsecond dt = 0"
  shows "strptime (strftime dt ''%d/%m/%Y'') ''%Y-%m-%dT%H:%M:%S'' = None"
    and "strptime (strftime dt ''%d/%m/%Y'') ''%Y-%m-%dT%H:%M:%S.%f'' = None"
    and "strptime (strftime dt ''%d/%m/%Y'') ''%Y-%m-%d'' = None"
    and "strptime (strftime dt ''%d/%m/%Y'') ''%d/%m/%Y'' = Some dt"
proof -
  obtain y m d h mi s us where fields:
    "dt = \<lparr>year = y, month = m, day = d, hour = h, minute = mi, second = s, microsecond = us\<rparr>"
    by (cases dt) auto
  have b: "1 \<le> y" "y \<le> 9999" "1 \<le> m" "m \<le> 12" "1 \<le> d" "d \<le> 31" "d < 100" "h = 0" "mi = 0"
    "s = 0" "d \<le> days_in_month y m" "us = 0"
    using assms days_in_month_le [of y m] unfolding fields
    by (simp_all add: valid_datetime_def)
  show "strptime (strftime dt ''%d/%m/%Y'') ''%Y-%m-%dT%H:%M:%S'' = None"
    unfolding fields using b
    by (simp add: match_eval valid_datetime_def del: match_directive.simps(1-7) literal.simps(1))
  show "strptime (strftime dt ''%d/%m/%Y'') ''%Y-%m-%dT%H:%M:%S.%f'' = None"
    unfolding fields using b
    by (simp add: match_eval valid_datetime_def del: match_directive.simps(1-7) literal.simps(1))
  show "strptime (strftime dt ''%d/%m/%Y'') ''%Y-%m-%d'' = None"
    unfolding fields using b
    by (simp add: match_eval valid_datetime_def del: match_directive.simps(1-7) literal.simps(1))
  show "strptime (strftime dt ''%d/%m/%Y'') ''%d/%m/%Y'' = Some dt"
    unfolding fields using b
    by (simp add: match_eval valid_datetime_def del: match_directive.simps(1-7) literal.simps(1))
qed

lemma strptime_month_first:
  assumes "valid_datetime dt" "hour dt = 0" "minute dt = 0" "second dt = 0" "microsecond dt = 0"
  shows "strptime (strftime dt ''%m/%d/%Y'') ''%Y-%m-%dT%H:%M:%S'' = None"
    and "strptime (strftime dt ''%m/%d/%Y'') ''%Y-%m-%dT%H:%M:%S.%f'' = None"
    and "strptime (strftime dt ''%m/%d/%Y'') ''%Y-%m-%d'' = None"
    and "strptime (strftime dt ''%m/%d/%Y'') ''%d/%m/%Y'' =
           (if day dt \<le> 12 then Some (dt\<lparr>month := day dt, day := month dt\<rparr>) else None)"
    and "strptime (strftime dt ''%m/%d/%Y'') ''%m/%d/%Y'' = Some dt"
proof -
  obtain y m d h mi s us where fields:
    "dt = \<lparr>year = y, month = m, day = d, hour = h, minute = mi, second = s, microsecond = us\<rparr>"
    by (cases dt) auto
  have b: "1 \<le> y" "y \<le> 9999" "1 \<le> m" "m \<le> 12" "m \<le> 31" "m < 100" "1 \<le> d" "d \<le> 31"
    "h = 0" "mi = 0" "s = 0" "d \<le> days_in_month y m" "us = 0"
    using assms days_in_month_le [of y m] unfolding fields
    by (simp_all add: valid_datetime_def)
  show "strptime (strftime dt ''%m/%d/%Y'') ''%Y-%m-%dT%H:%M:%S'' = None"
    unfolding fields using b
    by (simp add: match_eval valid_datetime_def del: match_directive.simps(1-7) literal.simps(1))
  show "strptime (strftime dt ''%m/%d/%Y'') ''%Y-%m-%dT%H:%M:%S.%f'' = None"
    unfolding fields using b
    by (simp add: match_eval valid_datetime_def del: match_directive.simps(1-7) literal.simps(1))
  show "strptime (strftime dt ''%m/%d/%Y'') ''%Y-%m-%d'' = None"
    unfolding fields using b
    by (simp add: match_eval valid_datetime_def del: match_directive.simps(1-7) literal.simps(1))
  show "strptime (strftime dt ''%m/%d/%Y'') ''%m/%d/%Y'' = Some dt"
    unfolding fields using b
    by (simp add: match_eval valid_datetime_def del: match_directive.simps(1-7) literal.simps(1))
  show "strptime (strftime dt ''%m/%d/%Y'') ''%d/%m/%Y'' =
           (if day dt \<le> 12 then Some (dt\<lparr>month := day dt, day := month dt\<rparr>) else None)"
  proof (cases "d \<le> 12")
    case True
    have "m \<le> days_in_month y d" using b(4) days_in_month_ge [of y d] by simp
    then show ?thesis
      unfolding fields using b True
      by (simp add: match_eval valid_datetime_def del: match_directive.simps(1-7) literal.simps(1))
  next
    case False
    then have "13 \<le> d" by simp
    then show ?thesis
      unfolding fields using b False
      by (simp add: match_eval valid_datetime_def del: match_directive.simps(1-7) literal.simps(1))
  qed
qed

lemma remove_all_no_plus: "CHR ''+'' \<notin> set s \<Longrightarrow> remove_all ''+00:00'' s = s"
  by (induction s) auto

lemma plus_notin_zfill [simp]: "CHR ''+'' \<notin> set (zfill w (str_nat n))"
proof
  assume "CHR ''+'' \<in> set (zfill w (str_nat n))"
  then have "is_digit CHR ''+''" by (rule zfill_digits)
  then show False by (simp add: is_digit_def digit_of_def)
qed

lemma rstrip_Z_id: "s \<noteq> [] \<Longrightarrow> last s \<noteq> CHR ''Z'' \<Longrightarrow> rstrip_Z s = s"
proof -
  assume "s \<noteq> []" "last s \<noteq> CHR ''Z''"
  then obtain xs c where s: "s = xs @ [c]" "c \<noteq> CHR ''Z''"
    by (metis append_butlast_last_id)
  show ?thesis unfolding s(1) using s(2) by (simp add: rstrip_Z_def)
qed

lemma rstrip_Z_snoc: "rstrip_Z (s @ ''Z'') = rstrip_Z s"
  by (simp add: rstrip_Z_def)

lemma strftime_Z:
  "strftime dt ''%Y-%m-%dT%H:%M:%SZ'' = strftime dt ''%Y-%m-%dT%H:%M:%S'' @ ''Z''"
  "strftime dt ''%Y-%m-%dT%H:%M:%S.%fZ'' = strftime dt ''%Y-%m-%dT%H:%M:%S.%f'' @ ''Z''"
  by (simp_all add: directive_of_def)

lemma rendered_shape:
  assumes "fmt \<in> set [''%Y-%m-%dT%H:%M:%S'', ''%Y-%m-%dT%H:%M:%S.%f'', ''%Y-%m-%d'',
                       ''%d/%m/%Y'', ''%m/%d/%Y'']"
  shows "strftime dt fmt \<noteq> []" and "last (strftime dt fmt) \<noteq> CHR ''Z''"
    and "CHR ''+'' \<notin> set (strftime dt fmt)"
  using assms by (auto simp: directive_of_def)

lemma clean_plain:
  assumes "fmt \<in> set [''%Y-%m-%dT%H:%M:%S'', ''%Y-%m-%dT%H:%M:%S.%f'', ''%Y-%m-%d'',
                       ''%d/%m/%Y'', ''%m/%d/%Y'']"
  shows "rstrip_Z (remove_all ''+00:00'' (strftime dt fmt)) = strftime dt fmt"
  using rendered_shape [OF assms, of dt]
  by (simp add: remove_all_no_plus rstrip_Z_id del: strftime.simps)

lemma clean_Z:
  "rstrip_Z (remove_all ''+00:00'' (strftime dt ''%Y-%m-%dT%H:%M:%SZ'')) =
     strftime dt ''%Y-%m-%dT%H:%M:%S''"
  "rstrip_Z (remove_all ''+00:00'' (strftime dt ''%Y-%m-%dT%H:%M:%S.%fZ'')) =
     strftime dt ''%Y-%m-%dT%H:%M:%S.%f''"
proof -
  have p: "CHR ''+'' \<notin> set (s @ ''Z'')" if "CHR ''+'' \<notin> set s" for s
    using that by simp
  show "rstrip_Z (remove_all ''+00:00'' (strftime dt ''%Y-%m-%dT%H:%M:%SZ'')) =
     strftime dt ''%Y-%m-%dT%H:%M:%S''"
    unfolding strftime_Z
    using rendered_shape [of "''%Y-%m-%dT%H:%M:%S''" dt]
    by (simp add: remove_all_no_plus [OF p] rstrip_Z_snoc rstrip_Z_id del: strftime.simps)
  show "rstrip_Z (remove_all ''+00:00'' (strftime dt ''%Y-%m-%dT%H:%M:%S.%fZ'')) =
     strftime dt ''%Y-%m-%dT%H:%M:%S.%f''"
    unfolding strftime_Z
    using rendered_shape [of "''%Y-%m-%dT%H:%M:%S.%f''" dt]
    by (simp add: remove_all_no_plus [OF p] rstrip_Z_snoc rstrip_Z_id del: strftime.simps)
qed

lemma rstrip_Z_formats:
  "rstrip_Z ''%Y-%m-%dT%H:%M:%S'' = ''%Y-%m-%dT%H:%M:%S''"
  "rstrip_Z ''%Y-%m-%dT%H:%M:%S.%f'' = ''%Y-%m-%dT%H:%M:%S.%f''"
  "rstrip_Z ''%Y-%m-%dT%H:%M:%SZ'' = ''%Y-%m-%dT%H:%M:%S''"
  "rstrip_Z ''%Y-%m-%dT%H:%M:%S.%fZ'' = ''%Y-%m-%dT%H:%M:%S.%f''"
  "rstrip_Z ''%Y-%m-%d'' = ''%Y-%m-%d''"
  "rstrip_Z ''%d/%m/%Y'' = ''%d/%m/%Y''"
  "rstrip_Z ''%m/%d/%Y'' = ''%m/%d/%Y''"
  by (simp_all add: rstrip_Z_def)

lemma try_date_formats:
  "try_formats s date_formats =
     (case strptime s ''%Y-%m-%dT%H:%M:%S'' of
        Some dt \<Rightarrow> Some dt
      | None \<Rightarrow>
          (case strptime s ''%Y-%m-%dT%H:%M:%S.%f'' of
             Some dt \<Rightarrow> Some dt
           | None \<Rightarrow>
               (case strptime s ''%Y-%m-%d'' of
                  Some dt \<Rightarrow> Some dt
                | None \<Rightarrow>
                    (case strptime s ''%d/%m/%Y'' of
                       Some dt \<Rightarrow> Some dt
                     | None \<Rightarrow> strptime s ''%m/%d/%Y''))))"
  unfolding date_formats_def try_formats.simps rstrip_Z_formats
  by (simp split: option.splits)


text \<open>
  C6. For every valid date value \<open>dt\<close>, formatting and parsing gives \<open>dt\<close> back in the
  timestamp format with seconds and its variant with the UTC marker (for a value without
  microseconds), in the timestamp format with fractional seconds and its variant with the
  UTC marker, and, for a value at midnight, in the bare date format and in the day-first
  slash format. In the month-first slash format the day-first format is tried before it:
  a value at midnight comes back unchanged when its day is above 12, and with day and
  month exchanged when its day is at most 12 (which is the same value only when day and
  month are equal).
\<close>

theorem parse_date_round_trip:
  assumes "valid_datetime dt"
  shows
    "(microsecond dt = 0 \<longrightarrow>
        parse_date (JStr (strftime dt ''%Y-%m-%dT%H:%M:%S'')) = Some dt \<and>
        parse_date (JStr (strftime dt ''%Y-%m-%dT%H:%M:%SZ'')) = Some dt) \<and>
     parse_date (JStr (strftime dt ''%Y-%m-%dT%H:%M:%S.%f'')) = Some dt \<and>
     parse_date (JStr (strftime dt ''%Y-%m-%dT%H:%M:%S.%fZ'')) = Some dt \<and>
     (hour dt = 0 \<and> minute dt = 0 \<and> second dt = 0 \<and> microsecond dt = 0 \<longrightarrow>
        parse_date (JStr (strftime dt ''%Y-%m-%d'')) = Some dt \<and>
        parse_date (JStr (strftime dt ''%d/%m/%Y'')) = Some dt \<and>
        parse_date (JStr (strftime dt ''%m/%d/%Y'')) =
          Some (if day dt \<le> 12 then dt\<lparr>month := day dt, day := month dt\<rparr> else dt))"
proof (intro conjI impI)
  assume us: "microsecond dt = 0"
  show "parse_date (JStr (strftime dt ''%Y-%m-%dT%H:%M:%S'')) = Some dt"
    using strptime_seconds [OF assms us]
    by (simp add: clean_plain try_date_formats del: strftime.simps)
  show "parse_date (JStr (strftime dt ''%Y-%m-%dT%H:%M:%SZ'')) = Some dt"
    using strptime_seconds [OF assms us]
    by (simp add: clean_Z try_date_formats del: strftime.simps)
next
  show "parse_date (JStr (strftime dt ''%Y-%m-%dT%H:%M:%S.%f'')) = Some dt"
    using strptime_fraction [OF assms]
    by (simp add: clean_plain try_date_formats del: strftime.simps)
  show "parse_date (JStr (strftime dt ''%Y-%m-%dT%H:%M:%S.%fZ'')) = Some dt"
    using strptime_fraction [OF assms]
    by (simp add: clean_Z try_date_formats del: strftime.simps)
next
  assume z: "hour dt = 0 \<and> minute dt = 0 \<and> second dt = 0 \<and> microsecond dt = 0"
  then have z': "hour dt = 0" "minute dt = 0" "second dt = 0" "microsecond dt = 0" by simp_all
  show "parse_date (JStr (strftime dt ''%Y-%m-%d'')) = Some dt"
    using strptime_date [OF assms z']
    by (simp add: clean_plain try_date_formats del: strftime.simps)
  show "parse_date (JStr (strftime dt ''%d/%m/%Y'')) = Some dt"
    using strptime_day_first [OF assms z']
    by (simp add: clean_plain try_date_formats del: strftime.simps)
  show "parse_date (JStr (strftime dt ''%m/%d/%Y'')) =
          Some (if day dt \<le> 12 then dt\<lparr>month := day dt, day := month dt\<rparr> else dt)"
    using strptime_month_first [OF assms z']
    by (simp add: clean_plain try_date_formats del: strftime.simps)
qed

lemma fifth_of_march_valid: "valid_datetime fifth_of_march"
  by (simp add: fifth_of_march_def valid_datetime_def days_in_month_def)

theorem parse_date_round_trip_witness:
  "valid_datetime fifth_of_march \<and>
   parse_date (JStr (strftime fifth_of_march ''%Y-%m-%dT%H:%M:%S'')) = Some fifth_of_march \<and>
   parse_date (JStr (strftime fifth_of_march ''%Y-%m-%dT%H:%M:%S.%fZ'')) = Some fifth_of_march \<and>
   parse_date (JStr (strftime fifth_of_march ''%Y-%m-%d'')) = Some fifth_of_march \<and>
   parse_date (JStr (strftime fifth_of_march ''%d/%m/%Y'')) = Some fifth_of_march \<and>
   parse_date (JStr (strftime fifth_of_march ''%m/%d/%Y'')) = Some third_of_may"
proof -
  have z: "hour fifth_of_march = 0" "minute fifth_of_march = 0" "second fifth_of_march = 0"
    "microsecond fifth_of_march = 0" "day fifth_of_march \<le> 12"
    "fifth_of_march\<lparr>month := day fifth_of_march, day := month fifth_of_march\<rparr> = third_of_may"
    by (simp_all add: fifth_of_march_def third_of_may_def)
  show ?thesis
    using parse_date_round_trip [OF fifth_of_march_valid] fifth_of_march_valid z
    by (simp del: strftime.simps)
qed

theorem month_first_round_trip_counterexample:
  "valid_datetime fifth_of_march \<and>
   strftime fifth_of_march ''%m/%d/%Y'' = ''03/05/2024'' \<and>
   parse_date (JStr ''03/05/2024'') = Some third_of_may \<and>
   parse_date (JStr (strftime fifth_of_march ''%m/%d/%Y'')) \<noteq> Some fifth_of_march"
proof -
  have r: "strftime fifth_of_march ''%m/%d/%Y'' = ''03/05/2024''"
    by (simp add: fifth_of_march_def directive_of_def digit_eval)
  have z: "hour fifth_of_march = 0" "minute fifth_of_march = 0" "second fifth_of_march = 0"
    "microsecond fifth_of_march = 0"
    by (simp_all add: fifth_of_march_def)
  have "strptime (strftime fifth_of_march ''%m/%d/%Y'') ''%d/%m/%Y'' = Some third_of_may"
    using strptime_month_first(4) [OF fifth_of_march_valid z]
    by (simp add: fifth_of_march_def third_of_may_def del: strftime.simps)
  then have p: "parse_date (JStr (strftime fifth_of_march ''%m/%d/%Y'')) = Some third_of_may"
    using strptime_month_first(1-3) [OF fifth_of_march_valid z]
    by (simp add: clean_plain try_date_formats del: strftime.simps)
  have "third_of_may \<noteq> fifth_of_march"
    by (simp add: fifth_of_march_def third_of_may_def)
  then show ?thesis
    using p fifth_of_march_valid unfolding r by simp
qed

end
